theory Spec2Isabelle
  imports Main "HOL-Library.Log_Nat"
begin

section \<open>News items and host functions\<close>

text \<open>
  The repository holds two versions of the same browser class \<open>NewsManager\<close>:
  \<^item> the partitioned variant (\<^verbatim>\<open>src/static/script.js\<close>) keeps two lists,
    \<open>cryptoNewsList\<close> and \<open>generalNewsList\<close>, with \<open>maxNewsCount = 5\<close>;
  \<^item> the unified variant (\<^verbatim>\<open>src/unnamed/part_000\<close>) keeps one list \<open>newsList\<close> with
    \<open>maxNewsCount = 50\<close>.
  Definitions of the partitioned variant carry the suffix \<open>_p\<close>, those of the unified
  variant the suffix \<open>_u\<close>; what both share has no suffix.

  Times are milliseconds since the epoch. A time value that may be \<open>NaN\<close> (an invalid
  \<open>Date\<close>) is an \<open>int option\<close>, with \<open>None\<close> for \<open>NaN\<close>. JavaScript numbers are
  doubles. The numbers of this program are doubles whose value is an integer, held here
  as that integer; where the source subtracts or divides them, the model rounds the
  result to a double as the source does (section "Arithmetic of doubles").

  A published value is a string or a number; \<open>PNum t\<close> is a number whose value is the
  integer \<open>t\<close>, an integer that a double holds. An entry of a list of the payload is an
  item or \<open>null\<close>: reading a field of \<open>null\<close> throws a \<open>TypeError\<close>.
\<close>

datatype published = PStr string | PNum int

record news_item =
  link :: string
  title :: string
  translated_title :: "string option"
  description :: "string option"
  translated_description :: "string option"
  source :: string
  published :: published

type_synonym entry = "news_item option"

text \<open>
  Built-in functions of the JavaScript host that the source calls and whose result
  depends on the host (its time zone, its date parser):
  \<^item> \<open>dateFromFields y m d h mi s\<close> is \<open>new Date(y, m, d, h, mi, s)\<close> on numbers that
    are not \<open>NaN\<close>: the local-time constructor, \<open>None\<close> when the date is out of range;
  \<^item> \<open>dateParse s\<close> is \<open>new Date(s)\<close> on a string;
  \<^item> \<open>numberOther s\<close> is \<open>Number(s)\<close> on a string that is not a short run of decimal
    digits (signs, fractions, exponents, padding: the rest of the numeric grammar), as
    far as its value is an integer or \<open>NaN\<close>.
\<close>

record host =
  dateFromFields :: "int \<Rightarrow> int \<Rightarrow> int \<Rightarrow> int \<Rightarrow> int \<Rightarrow> int \<Rightarrow> int option"
  dateParse :: "string \<Rightarrow> int option"
  numberOther :: "string \<Rightarrow> int option"

datatype exn = TypeError | HttpError nat | NetworkError | SyntaxError

section \<open>Strings: split and Number\<close>

text \<open>\<open>s.split(c)\<close> for a separator of one character: never the empty array.\<close>

fun split_js :: "char \<Rightarrow> string \<Rightarrow> string list" where
  "split_js c [] = [[]]"
| "split_js c (x # xs) =
     (if x = c then [] # split_js c xs
      else (case split_js c xs of
              [] \<Rightarrow> [[x]]
            | p # ps \<Rightarrow> (x # p) # ps))"

text \<open>Array destructuring \<open>[a, b, c] = arr\<close>: a missing position is \<open>undefined\<close>.\<close>

definition at_js :: "'a list \<Rightarrow> nat \<Rightarrow> 'a option" where
  "at_js xs i = (if i < length xs then Some (xs ! i) else None)"

definition is_digit :: "char \<Rightarrow> bool" where
  "is_digit c = (c \<in> set ''0123456789'')"

definition digit_val :: "char \<Rightarrow> nat" where
  "digit_val c = of_char c - 48"

definition decimal :: "string \<Rightarrow> int" where
  "decimal s = int (foldl (\<lambda>a c. 10 * a + digit_val c) 0 s)"

text \<open>
  \<open>Number(s)\<close> on a run of at most 15 decimal digits is the number the digits write
  (below \<open>10 ^ 15\<close>, where every integer is a JavaScript number); on any other
  string it is what the host's numeric grammar gives.
\<close>

definition Number_js :: "host \<Rightarrow> string \<Rightarrow> int option" where
  "Number_js h s =
     (if s \<noteq> [] \<and> length s \<le> 15 \<and> list_all is_digit s then Some (decimal s)
      else numberOther h s)"

text \<open>A destructured position that is \<open>undefined\<close> is \<open>NaN\<close> in arithmetic and in \<open>new Date\<close>.\<close>

definition num_at :: "int option list \<Rightarrow> nat \<Rightarrow> int option" where
  "num_at xs i = (case at_js xs i of None \<Rightarrow> None | Some v \<Rightarrow> v)"

definition Date6 :: "host \<Rightarrow> int option \<Rightarrow> int option \<Rightarrow> int option \<Rightarrow> int option \<Rightarrow>
    int option \<Rightarrow> int option \<Rightarrow> int option" where
  "Date6 h y m d hh mi s =
     (case (y, m, d, hh, mi, s) of
        (Some y', Some m', Some d', Some hh', Some mi', Some s') \<Rightarrow>
          dateFromFields h y' m' d' hh' mi' s'
      | _ \<Rightarrow> None)"

section \<open>Arithmetic of doubles\<close>

text \<open>
  A double has 53 significant bits, and an operation on doubles gives the double nearest
  to the exact result, the one with the even last bit when two are equally near. The
  numbers of this program are far from the largest and the smallest doubles.

  \<open>rne_div n d\<close> is the integer nearest to \<open>n / d\<close>, the even one on a tie.
\<close>

definition rne_div :: "int \<Rightarrow> int \<Rightarrow> int" where
  "rne_div n d =
     (let q = n div d; r = n mod d
      in if 2 * r < d then q
         else if d < 2 * r then q + 1
         else if even q then q else q + 1)"

text \<open>
  The double nearest to an integer: the integer itself below \<open>2 ^ 53\<close> in magnitude,
  and beyond that its 53 leading bits, rounded. This is the result of adding or
  subtracting two doubles whose exact sum or difference is that integer.
\<close>

definition roundDouble :: "int \<Rightarrow> int" where
  "roundDouble a =
     (if \<bar>a\<bar> < 2 ^ 53 then a
      else (let e = nat (bitlen \<bar>a\<bar> - 53)
            in sgn a * (rne_div \<bar>a\<bar> (2 ^ e) * 2 ^ e)))"

text \<open>
  \<open>Math.floor(a / c)\<close> for doubles with integer values \<open>a\<close> and \<open>c > 0\<close>. The quotient
  \<open>\<bar>a\<bar> / c\<close> is scaled by \<open>2 ^ S\<close> to have more than 53 bits before the point; \<open>B\<close>
  is the number of those bits, so the 53 leading bits are the quotient over \<open>2 ^ sh\<close>,
  rounded to the integer \<open>m\<close>, and the double is \<open>m * 2 ^ sh / 2 ^ S\<close> with the sign
  of \<open>a\<close>. Its floor is an integer division, which rounds towards minus infinity as
  \<open>Math.floor\<close> does.
\<close>

definition floorDivDouble :: "int \<Rightarrow> int \<Rightarrow> int" where
  "floorDivDouble a c =
     (if a = 0 then 0
      else (let S = nat (53 + bitlen c);
                N = \<bar>a\<bar> * 2 ^ S;
                B = bitlen (N div c);
                sh = nat (B - 53);
                m = rne_div N (c * 2 ^ sh);
                v = sgn a * m
            in if S \<le> sh then v * 2 ^ (sh - S) else v div 2 ^ (S - sh)))"

section \<open>getTimeAgo\<close>

text \<open>
  The four templates the source returns are Korean text: "just now", "N minutes ago",
  "N hours ago", "N days ago". A label is the template with its number; the last
  constructor is the text the day template gives for \<open>NaN\<close>.
\<close>

datatype label = JustNow | MinutesAgo int | HoursAgo int | DaysAgo int | DaysAgoNaN

fun tier :: "label \<Rightarrow> nat" where
  "tier JustNow = 0"
| "tier (MinutesAgo n) = 1"
| "tier (HoursAgo n) = 2"
| "tier (DaysAgo n) = 3"
| "tier DaysAgoNaN = 3"

text \<open>
  \<open>now - newsTime\<close> is a subtraction of doubles: \<open>NaN\<close> when the news time is an
  invalid date, and else the difference of the two integers rounded to a double.
\<close>

definition diffMs_of :: "int \<Rightarrow> int option \<Rightarrow> int option" where
  "diffMs_of now newsTime =
     (case newsTime of None \<Rightarrow> None | Some t \<Rightarrow> Some (roundDouble (now - t)))"

text \<open>
  Partitioned variant, lines 196 to 211. Every comparison with \<open>NaN\<close> is false, so an
  invalid date falls through to the day template.
\<close>

definition label_p :: "int option \<Rightarrow> label" where
  "label_p diffMs =
     (case diffMs of
        None \<Rightarrow> DaysAgoNaN
      | Some d \<Rightarrow>
          (let diffSeconds = floorDivDouble d 1000;
               diffMins = floorDivDouble diffSeconds 60
           in if diffMins < 1 then JustNow
              else if diffMins < 60 then MinutesAgo diffMins
              else (let diffHours = floorDivDouble diffMins 60
                    in if diffHours < 24 then HoursAgo diffHours
                       else DaysAgo (floorDivDouble diffHours 24))))"

text \<open>
  Partitioned variant, lines 183 to 194: a string is split at the space into a date part
  and a time part, each split again and read with \<open>Number\<close>; \<open>timePart.split\<close> throws
  a \<open>TypeError\<close> when the string has no second part. Any other value is used as it is.
\<close>

definition newsTime_p :: "host \<Rightarrow> published \<Rightarrow> exn + int option" where
  "newsTime_p h p =
     (case p of
        PStr s \<Rightarrow>
          (let parts = split_js CHR '' '' s;
               datePart = at_js parts 0;
               timePart = at_js parts 1
           in case datePart of
                None \<Rightarrow> Inl TypeError
              | Some dp \<Rightarrow>
                  (let ymd = map (Number_js h) (split_js CHR ''-'' dp)
                   in case timePart of
                        None \<Rightarrow> Inl TypeError
                      | Some tp \<Rightarrow>
                          (let hms = map (Number_js h) (split_js CHR '':'' tp)
                           in Inr (Date6 h (num_at ymd 0)
                                     (map_option (\<lambda>month. month - 1) (num_at ymd 1))
                                     (num_at ymd 2)
                                     (num_at hms 0) (num_at hms 1) (num_at hms 2)))))
      | PNum t \<Rightarrow> Inr (Some t))"

definition getTimeAgo_p :: "host \<Rightarrow> int \<Rightarrow> published \<Rightarrow> exn + label" where
  "getTimeAgo_p h now p =
     (case newsTime_p h p of
        Inl e \<Rightarrow> Inl e
      | Inr newsTime \<Rightarrow> Inr (label_p (diffMs_of now newsTime)))"

text \<open>
  Unified variant, lines 159 to 173: \<open>new Date(published)\<close> hands a string to the
  host's parser and takes a number as the time value, invalid beyond the range of
  \<open>Date\<close>. Nothing here throws once \<open>published\<close> has been read from the item.
\<close>

definition maxDateMs :: int where
  "maxDateMs = 8640000000000000"

definition newsTime_u :: "host \<Rightarrow> published \<Rightarrow> int option" where
  "newsTime_u h p =
     (case p of
        PStr s \<Rightarrow> dateParse h s
      | PNum t \<Rightarrow> (if \<bar>t\<bar> \<le> maxDateMs then Some t else None))"

definition label_u :: "int option \<Rightarrow> label" where
  "label_u diffMs =
     (case diffMs of
        None \<Rightarrow> DaysAgoNaN
      | Some d \<Rightarrow>
          (let diffMins = floorDivDouble d 60000
           in if diffMins < 1 then JustNow
              else if diffMins < 60 then MinutesAgo diffMins
              else (let diffHours = floorDivDouble diffMins 60
                    in if diffHours < 24 then HoursAgo diffHours
                       else DaysAgo (floorDivDouble diffHours 24))))"

definition getTimeAgo_u :: "host \<Rightarrow> int \<Rightarrow> published \<Rightarrow> label" where
  "getTimeAgo_u h now p = label_u (diffMs_of now (newsTime_u h p))"

section \<open>The endpoint's responses\<close>

text \<open>
  One call of \<open>fetch('/api/news')\<close> either rejects, or resolves to a response with a
  status whose body \<open>response.json()\<close> parses or fails to parse. A parsed body is
  \<open>null\<close> or an object with the fields of the endpoint's contract, each of which may be
  absent. (Any other body that is not an object reads \<open>success\<close> as \<open>undefined\<close>,
  like an object without that field.)
\<close>

record envelope =
  success :: "bool option"
  news :: "entry list option"
  crypto_news :: "entry list option"
  general_news :: "entry list option"

datatype body = JsonReject | JsonNull | JsonObj envelope

datatype response = FetchRejected | HttpResponse nat body

definition ok :: "nat \<Rightarrow> bool" where
  "ok status = (200 \<le> status \<and> status \<le> 299)"

section \<open>fetchNewsFromCollector\<close>

text \<open>
  The body of the \<open>try\<close> block, with what it throws on the left, and the function
  with its \<open>catch\<close>. The result type of the function keeps the left summand, so that
  "nothing is thrown" is a statement about the function and not about its type.
\<close>

definition fetchTry_p :: "response \<Rightarrow> exn + envelope option" where
  "fetchTry_p r =
     (case r of
        FetchRejected \<Rightarrow> Inl NetworkError
      | HttpResponse status b \<Rightarrow>
          (if \<not> ok status then Inl (HttpError status)
           else (case b of
                   JsonReject \<Rightarrow> Inl SyntaxError
                 | JsonNull \<Rightarrow> Inl TypeError
                 | JsonObj data \<Rightarrow>
                     (if success data = Some True then Inr (Some data) else Inr None))))"

definition fetchNewsFromCollector_p :: "response \<Rightarrow> exn + envelope option" where
  "fetchNewsFromCollector_p r =
     (case fetchTry_p r of Inl error \<Rightarrow> Inr None | Inr v \<Rightarrow> Inr v)"

text \<open>Unified variant: \<open>data.success && data.news\<close>; an array is truthy even when empty.\<close>

definition fetchTry_u :: "response \<Rightarrow> exn + entry list" where
  "fetchTry_u r =
     (case r of
        FetchRejected \<Rightarrow> Inl NetworkError
      | HttpResponse status b \<Rightarrow>
          (if \<not> ok status then Inl (HttpError status)
           else (case b of
                   JsonReject \<Rightarrow> Inl SyntaxError
                 | JsonNull \<Rightarrow> Inl TypeError
                 | JsonObj data \<Rightarrow>
                     (if success data = Some True
                      then (case news data of Some l \<Rightarrow> Inr l | None \<Rightarrow> Inr [])
                      else Inr []))))"

definition fetchNewsFromCollector_u :: "response \<Rightarrow> exn + entry list" where
  "fetchNewsFromCollector_u r =
     (case fetchTry_u r of Inl error \<Rightarrow> Inr [] | Inr v \<Rightarrow> Inr v)"

section \<open>The display surface\<close>

text \<open>
  A container's \<open>innerHTML\<close> is one of: the page's own markup, not yet written by the
  script; the no-news message; the error message; the list of rendered items. The markup
  of an item is a function of the item, its time label and its "new" flag, which is what
  a rendered item keeps. The elements the script looks up by id are taken to exist.
  One clock reading \<open>now\<close> serves a whole cycle.
\<close>

record rendered =
  r_item :: news_item
  r_timeAgo :: label
  r_isNew :: bool

datatype view = Untouched | NoNews | ErrorShown | Items "rendered list"

fun shown :: "view \<Rightarrow> nat" where
  "shown (Items rs) = length rs"
| "shown v = 0"

section \<open>The partitioned variant\<close>

record manager_p =
  cryptoNewsList :: "entry list"
  generalNewsList :: "entry list"
  sentNewsLinks_p :: "string set"
  generalContainer :: view
  cryptoContainer :: view
  generalLoading :: bool
  cryptoLoading :: bool
  totalNews_p :: "nat option"
  lastUpdate_p :: "int option"

definition maxNewsCount_p :: nat where
  "maxNewsCount_p = 5"

definition constructor_p :: manager_p where
  "constructor_p =
     \<lparr>cryptoNewsList = [], generalNewsList = [], sentNewsLinks_p = {},
      generalContainer = Untouched, cryptoContainer = Untouched,
      generalLoading = False, cryptoLoading = False,
      totalNews_p = None, lastUpdate_p = None\<rparr>"

text \<open>
  The callback of \<open>map\<close> in \<open>displayGeneralNews\<close> and \<open>displayCryptoNews\<close>, run over
  the entries from index \<open>i\<close> on. Its first statement reads \<open>news.published\<close>, which
  throws on \<open>null\<close>, and calls \<open>getTimeAgo\<close>; the first throw ends the whole map.
\<close>

fun renderItems_p :: "host \<Rightarrow> int \<Rightarrow> nat \<Rightarrow> entry list \<Rightarrow> exn + rendered list" where
  "renderItems_p h now i [] = Inr []"
| "renderItems_p h now i (ent # rest) =
     (case ent of
        None \<Rightarrow> Inl TypeError
      | Some n \<Rightarrow>
          (case getTimeAgo_p h now (published n) of
             Inl e \<Rightarrow> Inl e
           | Inr timeAgo \<Rightarrow>
               (case renderItems_p h now (Suc i) rest of
                  Inl e \<Rightarrow> Inl e
                | Inr rs \<Rightarrow>
                    Inr (\<lparr>r_item = n, r_timeAgo = timeAgo, r_isNew = (i < 2)\<rparr> # rs))))"

text \<open>
  A step that may throw returns the exception, if any, with the state at that point:
  the \<open>catch\<close> of the cycle goes on from there.
\<close>

definition displayGeneralNews :: "host \<Rightarrow> int \<Rightarrow> manager_p \<Rightarrow> exn option \<times> manager_p" where
  "displayGeneralNews h now s =
     (let generalNews = take maxNewsCount_p (generalNewsList s)
      in if length generalNews = 0 then (None, s\<lparr>generalContainer := NoNews\<rparr>)
         else (case renderItems_p h now 0 generalNews of
                 Inl e \<Rightarrow> (Some e, s)
               | Inr rs \<Rightarrow> (None, s\<lparr>generalContainer := Items rs\<rparr>)))"

definition displayCryptoNews :: "host \<Rightarrow> int \<Rightarrow> manager_p \<Rightarrow> exn option \<times> manager_p" where
  "displayCryptoNews h now s =
     (let cryptoNews = take maxNewsCount_p (cryptoNewsList s)
      in if length cryptoNews = 0 then (None, s\<lparr>cryptoContainer := NoNews\<rparr>)
         else (case renderItems_p h now 0 cryptoNews of
                 Inl e \<Rightarrow> (Some e, s)
               | Inr rs \<Rightarrow> (None, s\<lparr>cryptoContainer := Items rs\<rparr>)))"

definition displayNews_p :: "host \<Rightarrow> int \<Rightarrow> manager_p \<Rightarrow> exn option \<times> manager_p" where
  "displayNews_p h now s =
     (case displayGeneralNews h now s of
        (Some e, s') \<Rightarrow> (Some e, s')
      | (None, s') \<Rightarrow> displayCryptoNews h now s')"

definition updateStats_p :: "int \<Rightarrow> manager_p \<Rightarrow> manager_p" where
  "updateStats_p now s =
     s\<lparr>totalNews_p := Some (length (cryptoNewsList s) + length (generalNewsList s)),
       lastUpdate_p := Some now\<rparr>"

definition showLoading_p :: "bool \<Rightarrow> manager_p \<Rightarrow> manager_p" where
  "showLoading_p b s = s\<lparr>generalLoading := b, cryptoLoading := b\<rparr>"

definition showErrorMessage_p :: "manager_p \<Rightarrow> manager_p" where
  "showErrorMessage_p s = s\<lparr>generalContainer := ErrorShown, cryptoContainer := ErrorShown\<rparr>"

definition displayAndStats_p :: "host \<Rightarrow> int \<Rightarrow> manager_p \<Rightarrow> exn option \<times> manager_p" where
  "displayAndStats_p h now s =
     (case displayNews_p h now s of
        (Some e, s') \<Rightarrow> (Some e, s')
      | (None, s') \<Rightarrow> (None, updateStats_p now s'))"

text \<open>
  The \<open>try\<close> block of \<open>collectAndDisplayNews\<close> after the fetch has resolved (lines 56 to
  73). The class of this variant has no method \<open>showNoNewsMessage\<close>, so the call on
  line 68 throws a \<open>TypeError\<close>.
\<close>

definition tryBody_p :: "host \<Rightarrow> int \<Rightarrow> response \<Rightarrow> manager_p \<Rightarrow> exn option \<times> manager_p" where
  "tryBody_p h now resp s =
     (case fetchNewsFromCollector_p resp of
        Inl e \<Rightarrow> (Some e, s)
      | Inr newsData \<Rightarrow>
          (case newsData of
             Some data \<Rightarrow>
               displayAndStats_p h now
                 (s\<lparr>cryptoNewsList := (case crypto_news data of Some l \<Rightarrow> l | None \<Rightarrow> []),
                    generalNewsList := (case general_news data of Some l \<Rightarrow> l | None \<Rightarrow> [])\<rparr>)
           | None \<Rightarrow>
               (if length (cryptoNewsList s) = 0 \<and> length (generalNewsList s) = 0
                then (Some TypeError, s)
                else displayAndStats_p h now s)))"

text \<open>
  The cycle is suspended once, at the fetch: \<open>cycleBegin\<close> runs up to it, \<open>cycleFinish\<close>
  from the response to the end of the \<open>finally\<close> block.
\<close>

definition cycleBegin_p :: "manager_p \<Rightarrow> manager_p" where
  "cycleBegin_p s = showLoading_p True s"

definition cycleFinish_p :: "host \<Rightarrow> int \<Rightarrow> response \<Rightarrow> manager_p \<Rightarrow> manager_p" where
  "cycleFinish_p h now resp s =
     (case tryBody_p h now resp s of
        (Some error, s') \<Rightarrow> showLoading_p False (showErrorMessage_p s')
      | (None, s') \<Rightarrow> showLoading_p False s')"

definition collectAndDisplayNews_p :: "host \<Rightarrow> int \<Rightarrow> response \<Rightarrow> manager_p \<Rightarrow> manager_p" where
  "collectAndDisplayNews_p h now resp s = cycleFinish_p h now resp (cycleBegin_p s)"

section \<open>The unified variant\<close>

record manager_u =
  newsList :: "entry list"
  sentNewsLinks_u :: "string set"
  newsContainer :: view
  loading_u :: bool
  totalNews_u :: "nat option"
  lastUpdate_u :: "int option"

definition maxNewsCount_u :: nat where
  "maxNewsCount_u = 50"

definition constructor_u :: manager_u where
  "constructor_u =
     \<lparr>newsList = [], sentNewsLinks_u = {}, newsContainer = Untouched,
      loading_u = False, totalNews_u = None, lastUpdate_u = None\<rparr>"

text \<open>
  The \<open>forEach\<close> of lines 60 to 62: each link is added to the set in turn; reading
  \<open>news.link\<close> throws on \<open>null\<close>, with the links before it already added.
\<close>

fun addLinks :: "string set \<Rightarrow> entry list \<Rightarrow> exn option \<times> string set" where
  "addLinks links [] = (None, links)"
| "addLinks links (ent # rest) =
     (case ent of
        None \<Rightarrow> (Some TypeError, links)
      | Some n \<Rightarrow> addLinks (insert (link n) links) rest)"

text \<open>
  The callback of \<open>map\<close> in \<open>displayNews\<close> (lines 120 to 148). Its first statement
  reads \<open>news.published\<close>, which throws on \<open>null\<close>.
\<close>

fun renderItems_u :: "host \<Rightarrow> int \<Rightarrow> nat \<Rightarrow> entry list \<Rightarrow> exn + rendered list" where
  "renderItems_u h now i [] = Inr []"
| "renderItems_u h now i (ent # rest) =
     (case ent of
        None \<Rightarrow> Inl TypeError
      | Some n \<Rightarrow>
          (case renderItems_u h now (Suc i) rest of
             Inl e \<Rightarrow> Inl e
           | Inr rs \<Rightarrow>
               Inr (\<lparr>r_item = n, r_timeAgo = getTimeAgo_u h now (published n),
                     r_isNew = (i < 3)\<rparr> # rs)))"

definition showNoNewsMessage_u :: "manager_u \<Rightarrow> manager_u" where
  "showNoNewsMessage_u s = s\<lparr>newsContainer := NoNews\<rparr>"

definition showErrorMessage_u :: "manager_u \<Rightarrow> manager_u" where
  "showErrorMessage_u s = s\<lparr>newsContainer := ErrorShown\<rparr>"

definition displayNews_u :: "host \<Rightarrow> int \<Rightarrow> manager_u \<Rightarrow> exn option \<times> manager_u" where
  "displayNews_u h now s =
     (if length (newsList s) = 0 then (None, showNoNewsMessage_u s)
      else (case renderItems_u h now 0 (newsList s) of
              Inl e \<Rightarrow> (Some e, s)
            | Inr rs \<Rightarrow> (None, s\<lparr>newsContainer := Items rs\<rparr>)))"

definition updateStats_u :: "int \<Rightarrow> manager_u \<Rightarrow> manager_u" where
  "updateStats_u now s =
     s\<lparr>totalNews_u := Some (length (newsList s)), lastUpdate_u := Some now\<rparr>"

definition showLoading_u :: "bool \<Rightarrow> manager_u \<Rightarrow> manager_u" where
  "showLoading_u b s = s\<lparr>loading_u := b\<rparr>"

definition displayAndStats_u :: "host \<Rightarrow> int \<Rightarrow> manager_u \<Rightarrow> exn option \<times> manager_u" where
  "displayAndStats_u h now s =
     (case displayNews_u h now s of
        (Some e, s') \<Rightarrow> (Some e, s')
      | (None, s') \<Rightarrow> (None, updateStats_u now s'))"

text \<open>
  The \<open>try\<close> block after the fetch has resolved (lines 55 to 82): replace, record the
  links, cut to \<open>maxNewsCount\<close>, render, update the stats; or, with nothing new, show
  the message when the store is empty and render the old list otherwise. A throw in the
  \<open>forEach\<close> comes after the list has been replaced and before it is cut.
\<close>

definition tryBody_u :: "host \<Rightarrow> int \<Rightarrow> response \<Rightarrow> manager_u \<Rightarrow> exn option \<times> manager_u" where
  "tryBody_u h now resp s =
     (case fetchNewsFromCollector_u resp of
        Inl e \<Rightarrow> (Some e, s)
      | Inr newNews \<Rightarrow>
          (if length newNews > 0
           then (let s1 = s\<lparr>newsList := newNews\<rparr>
                 in case addLinks (sentNewsLinks_u s1) newNews of
                      (Some e, links) \<Rightarrow> (Some e, s1\<lparr>sentNewsLinks_u := links\<rparr>)
                    | (None, links) \<Rightarrow>
                        (let s2 = s1\<lparr>sentNewsLinks_u := links\<rparr>;
                             s3 = (if length (newsList s2) > maxNewsCount_u
                                   then s2\<lparr>newsList := take maxNewsCount_u (newsList s2)\<rparr>
                                   else s2)
                         in displayAndStats_u h now s3))
           else (if length (newsList s) = 0
                 then (None, showNoNewsMessage_u s)
                 else displayAndStats_u h now s)))"

definition cycleBegin_u :: "manager_u \<Rightarrow> manager_u" where
  "cycleBegin_u s = showLoading_u True s"

definition cycleFinish_u :: "host \<Rightarrow> int \<Rightarrow> response \<Rightarrow> manager_u \<Rightarrow> manager_u" where
  "cycleFinish_u h now resp s =
     (case tryBody_u h now resp s of
        (Some error, s') \<Rightarrow> showLoading_u False (showErrorMessage_u s')
      | (None, s') \<Rightarrow> showLoading_u False s')"

definition collectAndDisplayNews_u :: "host \<Rightarrow> int \<Rightarrow> response \<Rightarrow> manager_u \<Rightarrow> manager_u" where
  "collectAndDisplayNews_u h now resp s = cycleFinish_u h now resp (cycleBegin_u s)"

section \<open>Running cycles one after the other\<close>

text \<open>A run in which each cycle ends before the next one starts: one clock reading and one response per cycle.\<close>

fun runCycles_p :: "host \<Rightarrow> (int \<times> response) list \<Rightarrow> manager_p \<Rightarrow> manager_p" where
  "runCycles_p h [] s = s"
| "runCycles_p h ((now, resp) # cs) s = runCycles_p h cs (collectAndDisplayNews_p h now resp s)"

fun runCycles_u :: "host \<Rightarrow> (int \<times> response) list \<Rightarrow> manager_u \<Rightarrow> manager_u" where
  "runCycles_u h [] s = s"
| "runCycles_u h ((now, resp) # cs) s = runCycles_u h cs (collectAndDisplayNews_u h now resp s)"

section \<open>startNewsCollection and the event loop\<close>






section \<open>The labels as the documentation words them\<close>

text \<open>
  The rule in the words of the documentation, on the difference in milliseconds:
  under one minute, under sixty minutes, under twenty-four hours, else days, the number
  being the floored count of the unit.
\<close>

definition doubleExact :: int where
  "doubleExact = 9007199254740992"

definition relativeLabel_doc :: "int \<Rightarrow> label" where
  "relativeLabel_doc d =
     (if d < 60000 then JustNow
      else if d < 60 * 60000 then MinutesAgo (d div 60000)
      else if d < 24 * 3600000 then HoursAgo (d div 3600000)
      else DaysAgo (d div 86400000))"

section \<open>Concrete inputs\<close>

text \<open>
  A host, items and responses for the concrete evaluations below. The host's
  constructor counts months of 31 days: any function would do where only its use matters.
\<close>

definition host0 :: host where
  "host0 =
     \<lparr>dateFromFields =
        (\<lambda>y m d hh mi s. Some ((((((y * 12 + m) * 31 + d) * 24 + hh) * 60 + mi) * 60 + s) * 1000)),
      dateParse = (\<lambda>s. None),
      numberOther = (\<lambda>s. None)\<rparr>"

definition item0 :: "string \<Rightarrow> published \<Rightarrow> news_item" where
  "item0 l p =
     \<lparr>link = l, title = ''t'', translated_title = None, description = None,
      translated_description = None, source = ''s'', published = p\<rparr>"

definition entry0 :: "string \<Rightarrow> published \<Rightarrow> entry" where
  "entry0 l p = Some (item0 l p)"

definition success0 :: "entry list option \<Rightarrow> entry list option \<Rightarrow>
    entry list option \<Rightarrow> response" where
  "success0 n c g =
     HttpResponse 200 (JsonObj \<lparr>success = Some True, news = n, crypto_news = c, general_news = g\<rparr>)"

definition failure0 :: response where
  "failure0 =
     HttpResponse 200 (JsonObj \<lparr>success = Some False, news = None, crypto_news = None,
       general_news = None\<rparr>)"

section \<open>Integer division and its brackets\<close>

lemma int_div_less_iff:
  fixes a b c :: int
  assumes b: "0 < b"
  shows "a div b < c \<longleftrightarrow> a < c * b"
proof
  assume "a div b < c"
  then have "a div b + 1 \<le> c" by simp
  then have "(a div b + 1) * b \<le> c * b" using b by (simp only: mult_right_mono less_imp_le)
  moreover have "(a div b + 1) * b = a div b * b + b" by (simp add: algebra_simps)
  moreover have "a = a div b * b + a mod b" by simp
  moreover have "a mod b < b" using b by simp
  ultimately show "a < c * b" by linarith
next
  assume lt: "a < c * b"
  show "a div b < c"
  proof (rule ccontr)
    assume "\<not> a div b < c"
    then have "c \<le> a div b" by simp
    then have "c * b \<le> a div b * b" using b by (simp only: mult_right_mono less_imp_le)
    moreover have "a = a div b * b + a mod b" by simp
    moreover have "0 \<le> a mod b" using b by simp
    ultimately show False using lt by linarith
  qed
qed

lemma int_div_bracket:
  fixes x p t :: int
  assumes "0 < p" and "t * p \<le> x" and "x < (t + 1) * p"
  shows "x div p = t"
proof -
  have "x div p < t + 1"
    using int_div_less_iff [OF assms(1), of x "t + 1"] assms(3) by blast
  moreover have "\<not> x div p < t"
    using int_div_less_iff [OF assms(1), of x t] assms(2) by simp
  ultimately show ?thesis by simp
qed

section \<open>Rounding to the nearest integer\<close>

lemma rne_div_cases:
  assumes "0 < d"
  shows "(rne_div n d = n div d \<and> 2 * (n mod d) \<le> d) \<or>
    (rne_div n d = n div d + 1 \<and> d \<le> 2 * (n mod d))"
  by (auto simp add: rne_div_def Let_def)

lemma rne_div_exact: "n mod d = 0 \<Longrightarrow> 0 < d \<Longrightarrow> rne_div n d = n div d"
  by (simp add: rne_div_def)

lemma rne_div_up: "0 < d \<Longrightarrow> d < 2 * (n mod d) \<Longrightarrow> rne_div n d = n div d + 1"
  by (simp add: rne_div_def)

lemma rne_div_scale:
  assumes "0 < f"
  shows "rne_div (n * f) (d * f) = rne_div n d"
proof -
  have q: "(n * f) div (d * f) = n div d"
    using assms by simp
  have r: "(n * f) mod (d * f) = (n mod d) * f"
    using assms by simp
  have lt: "2 * ((n mod d) * f) < d * f \<longleftrightarrow> 2 * (n mod d) < d"
    using assms by (simp add: mult.assoc [symmetric])
  have gt: "d * f < 2 * ((n mod d) * f) \<longleftrightarrow> d < 2 * (n mod d)"
    using assms by (simp add: mult.assoc [symmetric])
  show ?thesis
    unfolding rne_div_def Let_def q r lt gt ..
qed

text \<open>
  The floor of a rounded quotient. With \<open>k\<close> bits after the point, where \<open>c < 2 ^ (k + 1)\<close>,
  rounding \<open>a / c\<close> does not reach the next integer: a quotient that is not an integer is
  at least \<open>1 / c\<close> away from it, more than half a unit of the last bit.
\<close>

lemma floor_rne_pos:
  fixes a c :: int
  assumes a: "0 \<le> a" and c: "0 < c" and k: "c < 2 ^ (k + 1)"
  shows "rne_div (a * 2 ^ k) c div 2 ^ k = a div c"
proof -
  define P :: int where "P = 2 ^ k"
  define t where "t = a div c"
  define r where "r = a mod c"
  define q' where "q' = (a * P) div c"
  define r' where "r' = (a * P) mod c"
  have P: "0 < P" by (simp add: P_def)
  have c2: "c < 2 * P" using k by (simp add: P_def)
  have r: "0 \<le> r" "r < c" using c by (simp_all add: r_def)
  have r'': "0 \<le> r'" "r' < c" using c by (simp_all add: r'_def)
  have a_eq: "a = t * c + r" by (simp add: t_def r_def)
  have M_eq: "a * P = q' * c + r'" by (simp add: q'_def r'_def)
  have M_eq2: "a * P = t * P * c + r * P"
    by (subst a_eq) (simp add: algebra_simps)
  have rP: "r * P < c * P" using r(2) P by simp
  have rP0: "0 \<le> r * P" using r(1) P by simp
  have low: "t * P \<le> q'"
  proof -
    have "\<not> (a * P) div c < t * P"
      using c M_eq2 rP0 by (simp add: int_div_less_iff)
    then show ?thesis by (simp add: q'_def)
  qed
  have high: "q' < (t + 1) * P"
  proof -
    have "a * P < (t + 1) * P * c"
      using M_eq2 rP by (simp add: algebra_simps)
    then show ?thesis using c by (simp add: q'_def int_div_less_iff)
  qed
  have "t * P \<le> rne_div (a * P) c \<and> rne_div (a * P) c < (t + 1) * P"
    using rne_div_cases [OF c, of "a * P"]
  proof
    assume "rne_div (a * P) c = a * P div c \<and> 2 * (a * P mod c) \<le> c"
    then show ?thesis using low high by (simp add: q'_def)
  next
    assume up: "rne_div (a * P) c = a * P div c + 1 \<and> c \<le> 2 * (a * P mod c)"
    then have half: "c \<le> 2 * r'" by (simp add: r'_def)
    have "q' + 1 < (t + 1) * P"
    proof (rule ccontr)
      assume "\<not> q' + 1 < (t + 1) * P"
      then have "(t + 1) * P - 1 \<le> q'" by simp
      then have "((t + 1) * P - 1) * c \<le> q' * c"
        using c by (simp only: mult_right_mono less_imp_le)
      then have "t * P * c + c * P - c \<le> q' * c"
        by (simp add: algebra_simps)
      with M_eq M_eq2 have "c * P - c + r' \<le> r * P" by linarith
      with half have 1: "2 * (c * P) - c \<le> 2 * (r * P)" by linarith
      have "1 \<le> c - r" using r(2) by simp
      then have "1 * P \<le> (c - r) * P"
        using P by (simp only: mult_right_mono less_imp_le)
      then have "P \<le> c * P - r * P" by (simp add: algebra_simps)
      with 1 have "2 * P \<le> c" by linarith
      with c2 show False by simp
    qed
    with up low show ?thesis by (simp add: q'_def)
  qed
  then have "rne_div (a * P) c div P = t"
    using P by (intro int_div_bracket) simp_all
  then show ?thesis by (simp add: P_def t_def)
qed

lemma floor_rne_neg:
  fixes a c :: int
  assumes a: "0 \<le> a" and c: "0 < c" and k: "c < 2 ^ (k + 1)"
  shows "(- rne_div (a * 2 ^ k) c) div 2 ^ k = (- a) div c"
proof -
  define P :: int where "P = 2 ^ k"
  define t where "t = a div c"
  define r where "r = a mod c"
  define q' where "q' = (a * P) div c"
  define r' where "r' = (a * P) mod c"
  have P: "0 < P" by (simp add: P_def)
  have c2: "c < 2 * P" using k by (simp add: P_def)
  have r: "0 \<le> r" "r < c" using c by (simp_all add: r_def)
  have r'': "0 \<le> r'" "r' < c" using c by (simp_all add: r'_def)
  have a_eq: "a = t * c + r" by (simp add: t_def r_def)
  have M_eq: "a * P = q' * c + r'" by (simp add: q'_def r'_def)
  have M_eq2: "a * P = t * P * c + r * P"
    by (subst a_eq) (simp add: algebra_simps)
  have rP: "r * P < c * P" using r(2) P by simp
  have rP0: "0 \<le> r * P" using r(1) P by simp
  have low: "t * P \<le> q'"
  proof -
    have "\<not> (a * P) div c < t * P"
      using c M_eq2 rP0 by (simp add: int_div_less_iff)
    then show ?thesis by (simp add: q'_def)
  qed
  have high: "q' < (t + 1) * P"
  proof -
    have "a * P < (t + 1) * P * c"
      using M_eq2 rP by (simp add: algebra_simps)
    then show ?thesis using c by (simp add: q'_def int_div_less_iff)
  qed
  show ?thesis
  proof (cases "r = 0")
    case True
    then have e: "a * P = (t * P) * c" using M_eq2 by simp
    have "(a * P) mod c = 0"
      unfolding e by simp
    moreover have "(a * P) div c = t * P"
      unfolding e using c by simp
    ultimately have m: "rne_div (a * P) c = t * P"
      using c by (simp add: rne_div_exact)
    have "(- (t * P)) div P = - t"
      using P by (intro int_div_bracket) (simp_all add: algebra_simps)
    moreover have "(- a) div c = - t"
      using c a_eq True by (intro int_div_bracket) (simp_all add: algebra_simps)
    ultimately show ?thesis
      using m by (simp add: P_def)
  next
    case False
    with r have rpos: "1 \<le> r" by simp
    have m_high: "rne_div (a * P) c \<le> (t + 1) * P"
      using rne_div_cases [OF c, of "a * P"] high by (auto simp add: q'_def)
    have m_low: "t * P < rne_div (a * P) c"
    proof (cases "t * P < q'")
      case True
      then show ?thesis
        using rne_div_cases [OF c, of "a * P"] by (auto simp add: q'_def)
    next
      case False
      with low have q: "q' = t * P" by simp
      with M_eq M_eq2 have r'_eq: "r' = r * P" by simp
      have "1 * P \<le> r * P"
        using rpos P by (simp only: mult_right_mono less_imp_le)
      then have "c < 2 * r'" using c2 r'_eq by simp
      then have "rne_div (a * P) c = q' + 1"
        using c by (simp add: rne_div_up q'_def r'_def)
      then show ?thesis using q by simp
    qed
    have "(- rne_div (a * P) c) div P = - (t + 1)"
      using P m_high m_low by (intro int_div_bracket) (simp_all add: algebra_simps)
    moreover have "(- a) div c = - (t + 1)"
      using c a_eq r(2) rpos by (intro int_div_bracket) (simp_all add: algebra_simps)
    ultimately show ?thesis by (simp add: P_def)
  qed
qed

section \<open>Doubles below \<open>2 ^ 53\<close>\<close>

lemma roundDouble_exact: "\<bar>a\<bar> < 2 ^ 53 \<Longrightarrow> roundDouble a = a"
  by (simp add: roundDouble_def)

text \<open>The size of the scaled quotient, for any \<open>a\<close> that is not zero.\<close>

lemma scaled_quotient_large:
  fixes a c :: int
  assumes a: "a \<noteq> 0" and c: "0 < c"
  shows "2 ^ 53 \<le> (\<bar>a\<bar> * 2 ^ nat (53 + bitlen c)) div c"
proof -
  have bc: "c < 2 ^ nat (bitlen c)"
    using bitlen_bounds [OF c] by simp
  have split: "(2::int) ^ nat (53 + bitlen c) = 2 ^ 53 * 2 ^ nat (bitlen c)"
    using bitlen_nonneg [of c] by (simp add: nat_add_distrib power_add)
  have "1 \<le> \<bar>a\<bar>" using a by simp
  then have "1 * (2 ^ 53 * 2 ^ nat (bitlen c)) \<le> \<bar>a\<bar> * (2 ^ 53 * 2 ^ nat (bitlen c))"
    by (intro mult_right_mono) simp_all
  moreover have "2 ^ 53 * c \<le> 2 ^ 53 * 2 ^ nat (bitlen c)"
    using bc by simp
  ultimately have "2 ^ 53 * c \<le> \<bar>a\<bar> * 2 ^ nat (53 + bitlen c)"
    unfolding split by linarith
  then have "\<not> (\<bar>a\<bar> * 2 ^ nat (53 + bitlen c)) div c < 2 ^ 53"
    using int_div_less_iff [OF c, of "\<bar>a\<bar> * 2 ^ nat (53 + bitlen c)" "2 ^ 53"] by simp
  then show ?thesis by simp
qed

lemma scaled_quotient_small:
  fixes a c :: int
  assumes a: "\<bar>a\<bar> < 2 ^ 53" and c: "0 < c"
  shows "(\<bar>a\<bar> * 2 ^ nat (53 + bitlen c)) div c < 2 ^ 107"
proof -
  have b1: "1 \<le> bitlen c"
    using c bitlen_eq_zero_iff [of c] bitlen_nonneg [of c] by (cases "bitlen c = 0") auto
  have bc: "2 ^ nat (bitlen c - 1) \<le> c"
    using bitlen_bounds [OF c] by simp
  have "nat (53 + bitlen c) = 54 + nat (bitlen c - 1)"
    using b1 by simp
  then have split: "(2::int) ^ nat (53 + bitlen c) = 2 ^ 54 * 2 ^ nat (bitlen c - 1)"
    by (simp add: power_add)
  have pos: "(0::int) < 2 ^ 54 * 2 ^ nat (bitlen c - 1)" by simp
  have "\<bar>a\<bar> * (2 ^ 54 * 2 ^ nat (bitlen c - 1)) < 2 ^ 53 * (2 ^ 54 * 2 ^ nat (bitlen c - 1))"
    using a pos by (rule mult_strict_right_mono)
  moreover have "(2::int) ^ 53 * (2 ^ 54 * 2 ^ nat (bitlen c - 1)) = 2 ^ 107 * 2 ^ nat (bitlen c - 1)"
    by simp
  moreover have "(2::int) ^ 107 * 2 ^ nat (bitlen c - 1) \<le> 2 ^ 107 * c"
    using bc by simp
  ultimately have "\<bar>a\<bar> * 2 ^ nat (53 + bitlen c) < 2 ^ 107 * c"
    unfolding split by linarith
  then show ?thesis
    using int_div_less_iff [OF c, of "\<bar>a\<bar> * 2 ^ nat (53 + bitlen c)" "2 ^ 107"] by simp
qed

text \<open>
  Below \<open>2 ^ 53\<close> in magnitude \<open>Math.floor(a / c)\<close> is the integer quotient rounded
  towards minus infinity.
\<close>

lemma floorDivDouble_exact:
  fixes a c :: int
  assumes a: "\<bar>a\<bar> < 2 ^ 53" and c: "0 < c"
  shows "floorDivDouble a c = a div c"
proof (cases "a = 0")
  case True
  then show ?thesis by (simp add: floorDivDouble_def)
next
  case False
  define S where "S = nat (53 + bitlen c)"
  define N where "N = \<bar>a\<bar> * 2 ^ S"
  define B where "B = bitlen (N div c)"
  define sh where "sh = nat (B - 53)"
  define k where "k = S - sh"
  have b1: "1 \<le> bitlen c"
    using c bitlen_eq_zero_iff [of c] bitlen_nonneg [of c] by (cases "bitlen c = 0") auto
  have Q_low: "2 ^ 53 \<le> N div c"
    using scaled_quotient_large [OF False c] by (simp add: N_def S_def)
  have Q_high: "N div c < 2 ^ 107"
    using scaled_quotient_small [OF a c] by (simp add: N_def S_def)
  have B_low: "54 \<le> B"
    unfolding B_def using Q_low by (simp add: bitlen_ge_iff_power)
  have B_high: "B \<le> 107"
    unfolding B_def using Q_high by (simp add: bitlen_le_iff_power)
  have sh_val: "int sh = B - 53"
    using B_low by (simp add: sh_def)
  have S_val: "int S = 53 + bitlen c"
    using b1 by (simp add: S_def)
  have le: "sh \<le> S"
    using sh_val S_val B_high b1 by linarith
  have S_split: "S = k + sh"
    using le by (simp add: k_def)
  have k_low: "nat (bitlen c) \<le> k + 1"
    using sh_val S_val B_high b1 le by (simp add: k_def)
  have "c < 2 ^ nat (bitlen c)"
    using bitlen_bounds [OF c] by simp
  also have "\<dots> \<le> 2 ^ (k + 1)"
    using k_low by (intro power_increasing) simp_all
  finally have ck: "c < 2 ^ (k + 1)" .
  have N_split: "N = (\<bar>a\<bar> * 2 ^ k) * 2 ^ sh"
    by (simp add: N_def S_split power_add)
  have m: "rne_div N (c * 2 ^ sh) = rne_div (\<bar>a\<bar> * 2 ^ k) c"
    unfolding N_split by (rule rne_div_scale) simp
  have unfold: "floorDivDouble a c = (sgn a * rne_div (\<bar>a\<bar> * 2 ^ k) c) div 2 ^ k"
  proof (cases "S \<le> sh")
    case True
    with le have eq: "S = sh" by simp
    then have "k = 0" "sh - S = 0" by (simp_all add: k_def)
    then show ?thesis
      using False True m
      by (simp add: floorDivDouble_def Let_def S_def [symmetric] N_def [symmetric]
          B_def [symmetric] sh_def [symmetric])
  next
    case False2: False
    show ?thesis
      using False False2 m
      by (simp add: floorDivDouble_def Let_def S_def [symmetric] N_def [symmetric]
          B_def [symmetric] sh_def [symmetric] k_def)
  qed
  show ?thesis
  proof (cases "0 < a")
    case True
    then have "sgn a = 1" "\<bar>a\<bar> = a" by simp_all
    with floor_rne_pos [OF _ c ck, of a] True unfold show ?thesis by simp
  next
    case neg: False
    with False have "sgn a = - 1" "\<bar>a\<bar> = - a" by simp_all
    with floor_rne_neg [OF _ c ck, of "- a"] neg unfold show ?thesis by simp
  qed
qed

text \<open>Rounding keeps the sign of a negative number, and so does the floor of a quotient.\<close>

lemma rne_div_ge: "0 < d \<Longrightarrow> n div d \<le> rne_div n d"
  using rne_div_cases [of d n] by auto

lemma roundDouble_negative: "a < 0 \<Longrightarrow> roundDouble a < 0"
proof (cases "\<bar>a\<bar> < 2 ^ 53")
  case True
  assume "a < 0"
  with True show ?thesis by (simp add: roundDouble_def)
next
  case False
  assume neg: "a < 0"
  let ?e = "nat (bitlen \<bar>a\<bar> - 53)"
  have pos: "0 < \<bar>a\<bar>" using neg by simp
  have "?e \<le> nat (bitlen \<bar>a\<bar> - 1)" by simp
  then have "(2::int) ^ ?e \<le> 2 ^ nat (bitlen \<bar>a\<bar> - 1)"
    by (intro power_increasing) simp_all
  also have "\<dots> \<le> \<bar>a\<bar>"
    using bitlen_bounds [OF pos] by simp
  finally have "\<not> \<bar>a\<bar> div 2 ^ ?e < 1"
    using int_div_less_iff [of "2 ^ ?e" "\<bar>a\<bar>" 1] by simp
  then have "1 \<le> rne_div \<bar>a\<bar> (2 ^ ?e)"
    using rne_div_ge [of "2 ^ ?e" "\<bar>a\<bar>"] by simp
  then have "0 < rne_div \<bar>a\<bar> (2 ^ ?e) * 2 ^ ?e"
    by (intro mult_pos_pos) simp_all
  with neg False show ?thesis
    by (simp add: roundDouble_def Let_def sgn_if)
qed

lemma floorDivDouble_negative:
  fixes a c :: int
  assumes neg: "a < 0" and c: "0 < c"
  shows "floorDivDouble a c < 0"
proof -
  define S where "S = nat (53 + bitlen c)"
  define N where "N = \<bar>a\<bar> * 2 ^ S"
  define B where "B = bitlen (N div c)"
  define sh where "sh = nat (B - 53)"
  define m where "m = rne_div N (c * 2 ^ sh)"
  have a0: "a \<noteq> 0" using neg by simp
  have Q_low: "2 ^ 53 \<le> N div c"
    using scaled_quotient_large [OF a0 c] by (simp add: N_def S_def)
  then have Q_pos: "0 < N div c"
    by (rule less_le_trans [rotated]) simp
  have "sh \<le> nat (B - 1)" by (simp add: sh_def)
  then have "(2::int) ^ sh \<le> 2 ^ nat (B - 1)"
    by (intro power_increasing) simp_all
  also have "\<dots> \<le> N div c"
    using bitlen_bounds [OF Q_pos] by (simp add: B_def)
  finally have "\<not> (N div c) div 2 ^ sh < 1"
    using int_div_less_iff [of "2 ^ sh" "N div c" 1] by simp
  moreover have "N div (c * 2 ^ sh) = (N div c) div 2 ^ sh"
    using c by (simp add: zdiv_zmult2_eq)
  ultimately have "1 \<le> N div (c * 2 ^ sh)" by simp
  moreover have "0 < c * 2 ^ sh" using c by simp
  ultimately have m1: "1 \<le> m"
    using rne_div_ge [of "c * 2 ^ sh" N] by (simp add: m_def)
  define v where "v = sgn a * m"
  have v: "v < 0"
    using neg m1 by (simp add: v_def sgn_if)
  have "(if S \<le> sh then v * 2 ^ (sh - S) else v div 2 ^ (S - sh)) < 0"
  proof (cases "S \<le> sh")
    case True
    have "v * 2 ^ (sh - S) < 0"
      using v by (simp add: mult_less_0_iff)
    with True show ?thesis by simp
  next
    case False
    have "v div 2 ^ (S - sh) < 0"
      using v by (simp add: pos_imp_zdiv_neg_iff)
    with False show ?thesis by simp
  qed
  then show ?thesis
    using a0
    unfolding floorDivDouble_def Let_def S_def [symmetric] N_def [symmetric]
      B_def [symmetric] sh_def [symmetric] m_def [symmetric] v_def [symmetric]
    by simp
qed

section \<open>Arithmetic of the thresholds\<close>

lemma div_nest:
  "(d::int) div 1000 div 60 = d div 60000"
  "(d::int) div 60000 div 60 = d div 3600000"
  "(d::int) div 3600000 div 24 = d div 86400000"
  by (simp_all add: zdiv_zmult2_eq [symmetric])

lemma abs_div_less:
  fixes a c b :: int
  assumes "\<bar>a\<bar> < b" and "0 < c"
  shows "\<bar>a div c\<bar> < b"
proof (cases "0 \<le> a")
  case True
  then have "0 \<le> a div c" using assms(2) by (simp add: pos_imp_zdiv_nonneg_iff)
  moreover have "a div c \<le> a"
  proof -
    have "1 \<le> c" using assms(2) by simp
    then have "(a + 1) * 1 \<le> (a + 1) * c" using True by (intro mult_left_mono) simp_all
    then have "a < (a + 1) * c" by simp
    then have "a div c < a + 1"
      using int_div_less_iff [OF assms(2), of a "a + 1"] by blast
    then show ?thesis by simp
  qed
  ultimately show ?thesis using assms(1) True by simp
next
  case False
  then have neg: "a < 0" by simp
  then have "a div c < 0" using assms(2) by (simp add: pos_imp_zdiv_neg_iff)
  moreover have "a \<le> a div c"
  proof -
    have "1 \<le> c" using assms(2) by simp
    then have "a * c \<le> a * 1" using neg by (intro mult_left_mono_neg) simp_all
    then have "\<not> a < a * c" by simp
    then have "\<not> a div c < a"
      using int_div_less_iff [OF assms(2), of a a] by simp
    then show ?thesis by simp
  qed
  ultimately show ?thesis using assms(1) neg by simp
qed

lemma label_u_doc:
  assumes "\<bar>d\<bar> < 2 ^ 53"
  shows "label_u (Some d) = relativeLabel_doc d"
proof -
  have 1: "floorDivDouble d 60000 = d div 60000"
    using assms by (simp add: floorDivDouble_exact)
  have "\<bar>d div 60000\<bar> < 2 ^ 53"
    using assms by (rule abs_div_less) simp
  then have 2: "floorDivDouble (d div 60000) 60 = d div 3600000"
    by (simp add: floorDivDouble_exact div_nest)
  have "\<bar>d div 3600000\<bar> < 2 ^ 53"
    using assms by (rule abs_div_less) simp
  then have 3: "floorDivDouble (d div 3600000) 24 = d div 86400000"
    by (simp add: floorDivDouble_exact div_nest)
  show ?thesis
    by (simp add: label_u_def relativeLabel_doc_def Let_def 1 2 3 int_div_less_iff)
qed

lemma label_p_doc:
  assumes "\<bar>d\<bar> < 2 ^ 53"
  shows "label_p (Some d) = relativeLabel_doc d"
proof -
  have 0: "floorDivDouble d 1000 = d div 1000"
    using assms by (simp add: floorDivDouble_exact)
  have "\<bar>d div 1000\<bar> < 2 ^ 53"
    using assms by (rule abs_div_less) simp
  then have 1: "floorDivDouble (d div 1000) 60 = d div 60000"
    by (simp add: floorDivDouble_exact div_nest)
  have "\<bar>d div 60000\<bar> < 2 ^ 53"
    using assms by (rule abs_div_less) simp
  then have 2: "floorDivDouble (d div 60000) 60 = d div 3600000"
    by (simp add: floorDivDouble_exact div_nest)
  have "\<bar>d div 3600000\<bar> < 2 ^ 53"
    using assms by (rule abs_div_less) simp
  then have 3: "floorDivDouble (d div 3600000) 24 = d div 86400000"
    by (simp add: floorDivDouble_exact div_nest)
  show ?thesis
    by (simp add: label_p_def relativeLabel_doc_def Let_def 0 1 2 3 int_div_less_iff)
qed

lemma tier_doc_mono: "d1 \<le> d2 \<Longrightarrow> tier (relativeLabel_doc d1) \<le> tier (relativeLabel_doc d2)"
  by (simp add: relativeLabel_doc_def)

lemma diffMs_of_exact:
  "\<bar>now - t\<bar> < doubleExact \<Longrightarrow> diffMs_of now (Some t) = Some (now - t)"
  by (simp add: diffMs_of_def doubleExact_def roundDouble_exact)

lemma getTimeAgo_p_valid:
  "newsTime_p h p = Inr (Some t) \<Longrightarrow> \<bar>now - t\<bar> < doubleExact \<Longrightarrow>
   getTimeAgo_p h now p = Inr (relativeLabel_doc (now - t))"
  by (simp add: getTimeAgo_p_def diffMs_of_exact label_p_doc doubleExact_def)

lemma getTimeAgo_u_valid:
  "newsTime_u h p = Some t \<Longrightarrow> \<bar>now - t\<bar> < doubleExact \<Longrightarrow>
   getTimeAgo_u h now p = relativeLabel_doc (now - t)"
  by (simp add: getTimeAgo_u_def diffMs_of_exact label_u_doc doubleExact_def)

lemma newsTime_p_PNum: "newsTime_p h (PNum t) = Inr (Some t)"
  by (simp add: newsTime_p_def)

lemma newsTime_u_PNum: "\<bar>t\<bar> \<le> maxDateMs \<Longrightarrow> newsTime_u h (PNum t) = Some t"
  by (simp add: newsTime_u_def)

lemma getTimeAgo_p_PNum:
  "\<bar>now - t\<bar> < doubleExact \<Longrightarrow>
   getTimeAgo_p h now (PNum t) = Inr (relativeLabel_doc (now - t))"
  by (rule getTimeAgo_p_valid [OF newsTime_p_PNum])

lemma getTimeAgo_u_PNum:
  "\<bar>t\<bar> \<le> maxDateMs \<Longrightarrow> \<bar>now - t\<bar> < doubleExact \<Longrightarrow>
   getTimeAgo_u h now (PNum t) = relativeLabel_doc (now - t)"
  by (rule getTimeAgo_u_valid [OF newsTime_u_PNum])

section \<open>The relative-time label\<close>

text \<open>
  Claim C2, amended. For a published time \<open>t\<close> and a clock reading \<open>now\<close> with
  \<open>t \<le> now\<close>, less than \<open>2 ^ 53\<close> milliseconds apart (some 285 000 years, the range
  in which the difference of the doubles is the difference of the integers), both
  variants of \<open>getTimeAgo\<close> return the label of the documented rule on \<open>now - t\<close>: under
  one minute "just now", under sixty minutes the floored minutes, under twenty-four
  hours the floored hours, else the floored days, with no larger unit. The six boundary
  values are as documented (59 s, 60 s, 59 min, 60 min, 23 h 59 min, 24 h), and within
  that range the tier of the label does not decrease when \<open>now\<close> grows.
\<close>

theorem C2_relative_label:
  fixes t now now' :: int
  assumes "t \<le> now" and "now \<le> now'" and "now' - t < doubleExact"
  shows
    "(newsTime_p h p = Inr (Some t) \<longrightarrow>
        getTimeAgo_p h now p = Inr (relativeLabel_doc (now - t))) \<and>
     (newsTime_u h p = Some t \<longrightarrow>
        getTimeAgo_u h now p = relativeLabel_doc (now - t)) \<and>
     getTimeAgo_p h (t + 59000) (PNum t) = Inr JustNow \<and>
     getTimeAgo_p h (t + 60000) (PNum t) = Inr (MinutesAgo 1) \<and>
     getTimeAgo_p h (t + 59 * 60000) (PNum t) = Inr (MinutesAgo 59) \<and>
     getTimeAgo_p h (t + 60 * 60000) (PNum t) = Inr (HoursAgo 1) \<and>
     getTimeAgo_p h (t + (23 * 60 + 59) * 60000) (PNum t) = Inr (HoursAgo 23) \<and>
     getTimeAgo_p h (t + 24 * 60 * 60000) (PNum t) = Inr (DaysAgo 1) \<and>
     (\<bar>t\<bar> \<le> maxDateMs \<longrightarrow>
        getTimeAgo_u h (t + 59000) (PNum t) = JustNow \<and>
        getTimeAgo_u h (t + 60000) (PNum t) = MinutesAgo 1 \<and>
        getTimeAgo_u h (t + 59 * 60000) (PNum t) = MinutesAgo 59 \<and>
        getTimeAgo_u h (t + 60 * 60000) (PNum t) = HoursAgo 1 \<and>
        getTimeAgo_u h (t + (23 * 60 + 59) * 60000) (PNum t) = HoursAgo 23 \<and>
        getTimeAgo_u h (t + 24 * 60 * 60000) (PNum t) = DaysAgo 1) \<and>
     tier (label_p (diffMs_of now (Some t))) \<le> tier (label_p (diffMs_of now' (Some t))) \<and>
     tier (label_u (diffMs_of now (Some t))) \<le> tier (label_u (diffMs_of now' (Some t)))"
proof -
  have range: "\<bar>now - t\<bar> < doubleExact" and range': "\<bar>now' - t\<bar> < doubleExact"
    using assms by simp_all
  have general_p: "newsTime_p h p = Inr (Some t) \<longrightarrow>
      getTimeAgo_p h now p = Inr (relativeLabel_doc (now - t))"
    using range by (simp add: getTimeAgo_p_valid)
  have general_u: "newsTime_u h p = Some t \<longrightarrow>
      getTimeAgo_u h now p = relativeLabel_doc (now - t)"
    using range by (simp add: getTimeAgo_u_valid)
  have at_p: "getTimeAgo_p h (t + d) (PNum t) = Inr (relativeLabel_doc d)"
    if "\<bar>d\<bar> < doubleExact" for d
    using getTimeAgo_p_PNum [of "t + d" t h] that by simp
  have at_u: "getTimeAgo_u h (t + d) (PNum t) = relativeLabel_doc d"
    if "\<bar>t\<bar> \<le> maxDateMs" and "\<bar>d\<bar> < doubleExact" for d
    using getTimeAgo_u_PNum [of t "t + d" h] that by simp
  have mono: "tier (relativeLabel_doc (now - t)) \<le> tier (relativeLabel_doc (now' - t))"
    using assms(2) by (intro tier_doc_mono) simp
  have lab: "label_p (Some (now - t)) = relativeLabel_doc (now - t)"
    "label_u (Some (now - t)) = relativeLabel_doc (now - t)"
    "label_p (Some (now' - t)) = relativeLabel_doc (now' - t)"
    "label_u (Some (now' - t)) = relativeLabel_doc (now' - t)"
    using range range' by (simp_all add: label_p_doc label_u_doc doubleExact_def)
  have mono_p: "tier (label_p (diffMs_of now (Some t))) \<le>
      tier (label_p (diffMs_of now' (Some t)))"
    using mono by (simp add: diffMs_of_exact [OF range] diffMs_of_exact [OF range'] lab)
  have mono_u: "tier (label_u (diffMs_of now (Some t))) \<le>
      tier (label_u (diffMs_of now' (Some t)))"
    using mono by (simp add: diffMs_of_exact [OF range] diffMs_of_exact [OF range'] lab)
  show ?thesis
    using general_p general_u mono_p mono_u
    by (simp add: at_p at_u doubleExact_def relativeLabel_doc_def)
qed

theorem C2_relative_label_witness:
  "(0::int) \<le> 90000 \<and> (90000::int) \<le> 7200000 \<and> (7200000::int) - 0 < doubleExact \<and>
   getTimeAgo_p host0 90000 (PNum 0) = Inr (MinutesAgo 1) \<and>
   getTimeAgo_u host0 90000 (PNum 0) = MinutesAgo 1 \<and>
   getTimeAgo_u host0 60000 (PNum 0) = MinutesAgo 1 \<and>
   tier (label_p (diffMs_of 90000 (Some 0))) \<le> tier (label_p (diffMs_of 7200000 (Some 0)))"
  using C2_relative_label [of 0 90000 7200000 host0 "PNum 0"]
  by (simp add: newsTime_p_def newsTime_u_def maxDateMs_def relativeLabel_doc_def
      doubleExact_def)

text \<open>
  The claim as first worded has no such range, and fails beyond it. With a number as
  the published value, in the partitioned variant, the difference of the doubles is
  rounded up to a whole day and the label counts one day more than the floored count.
  The same happens in both variants for two times that are both valid dates.
\<close>

theorem C2_counterexample:
  "(- 18012636865742996 :: int) \<le> 1761665457003 \<and>
   getTimeAgo_p host0 1761665457003 (PNum (- 18012636865742996)) = Inr (DaysAgo 208499983) \<and>
   relativeLabel_doc (1761665457003 - (- 18012636865742996)) = DaysAgo 208499982 \<and>
   (- 8633054389990089 :: int) \<le> 934094160409910 \<and>
   \<bar>- 8633054389990089 :: int\<bar> \<le> maxDateMs \<and> \<bar>934094160409910 :: int\<bar> \<le> maxDateMs \<and>
   getTimeAgo_p host0 934094160409910 (PNum (- 8633054389990089)) = Inr (DaysAgo 110730886) \<and>
   getTimeAgo_u host0 934094160409910 (PNum (- 8633054389990089)) = DaysAgo 110730886 \<and>
   relativeLabel_doc (934094160409910 - (- 8633054389990089)) = DaysAgo 110730885"
  by code_simp

text \<open>
  Claim C10. For a published time strictly later than the clock reading, both variants
  return "just now": the difference is negative, its floored minute count is below 1,
  and the first branch is taken. The label type has no constructor for the future.
\<close>

theorem C10_future_is_just_now:
  fixes t now :: int
  assumes "now < t"
  shows
    "(now - t) div 1000 div 60 < 1 \<and> (now - t) div 60000 < 1 \<and>
     (newsTime_p h p = Inr (Some t) \<longrightarrow> getTimeAgo_p h now p = Inr JustNow) \<and>
     (newsTime_u h p = Some t \<longrightarrow> getTimeAgo_u h now p = JustNow)"
proof -
  have neg: "now - t < 60000" using assms by simp
  have d: "roundDouble (now - t) < 0"
    using assms by (intro roundDouble_negative) simp
  have s: "floorDivDouble (roundDouble (now - t)) 1000 < 0"
    using d by (intro floorDivDouble_negative) simp_all
  have mp: "floorDivDouble (floorDivDouble (roundDouble (now - t)) 1000) 60 < 1"
    using floorDivDouble_negative [OF s, of 60] by simp
  have mu: "floorDivDouble (roundDouble (now - t)) 60000 < 1"
    using floorDivDouble_negative [OF d, of 60000] by simp
  have "label_p (diffMs_of now (Some t)) = JustNow \<and> label_u (diffMs_of now (Some t)) = JustNow"
    using mp mu by (simp add: diffMs_of_def label_p_def label_u_def Let_def)
  then show ?thesis
    using neg by (simp add: getTimeAgo_p_def getTimeAgo_u_def div_nest int_div_less_iff)
qed

theorem C10_future_is_just_now_witness:
  "(1000::int) < 3601000 \<and>
   getTimeAgo_p host0 1000 (PNum 3601000) = Inr JustNow \<and>
   getTimeAgo_u host0 1000 (PNum 3601000) = JustNow"
  using C10_future_is_just_now [of 1000 3601000 host0 "PNum 3601000"]
  by (simp add: newsTime_p_def newsTime_u_def maxDateMs_def)

section \<open>The fetcher\<close>

lemma fetch_p_Inr: "\<exists>v. fetchNewsFromCollector_p r = Inr v"
  by (simp add: fetchNewsFromCollector_p_def split: sum.splits)

lemma fetch_u_Inr: "\<exists>v. fetchNewsFromCollector_u r = Inr v"
  by (simp add: fetchNewsFromCollector_u_def split: sum.splits)

lemma fetch_p_success:
  "ok status \<Longrightarrow> success data = Some True \<Longrightarrow>
   fetchNewsFromCollector_p (HttpResponse status (JsonObj data)) = Inr (Some data)"
  by (simp add: fetchNewsFromCollector_p_def fetchTry_p_def)

lemma fetch_u_success:
  "ok status \<Longrightarrow> success data = Some True \<Longrightarrow> news data = Some l \<Longrightarrow>
   fetchNewsFromCollector_u (HttpResponse status (JsonObj data)) = Inr l"
  by (simp add: fetchNewsFromCollector_u_def fetchTry_u_def)

text \<open>
  Claim C5. \<open>fetchNewsFromCollector\<close> throws nothing, whatever the response. A rejected
  fetch, a status outside 200 to 299, a body that fails to parse or is \<open>null\<close>, and a
  \<open>success\<close> flag that is false or absent each give the no-data value: \<open>null\<close> in the
  partitioned variant, the empty list in the unified one.
\<close>

theorem C5_fetch_never_throws:
  "fetchNewsFromCollector_p r \<noteq> Inl e \<and>
   fetchNewsFromCollector_u r \<noteq> Inl e \<and>
   fetchNewsFromCollector_p FetchRejected = Inr None \<and>
   fetchNewsFromCollector_u FetchRejected = Inr [] \<and>
   (\<not> ok status \<longrightarrow>
      fetchNewsFromCollector_p (HttpResponse status b) = Inr None \<and>
      fetchNewsFromCollector_u (HttpResponse status b) = Inr []) \<and>
   fetchNewsFromCollector_p (HttpResponse status JsonReject) = Inr None \<and>
   fetchNewsFromCollector_u (HttpResponse status JsonReject) = Inr [] \<and>
   fetchNewsFromCollector_p (HttpResponse status JsonNull) = Inr None \<and>
   fetchNewsFromCollector_u (HttpResponse status JsonNull) = Inr [] \<and>
   (success data \<noteq> Some True \<longrightarrow>
      fetchNewsFromCollector_p (HttpResponse status (JsonObj data)) = Inr None \<and>
      fetchNewsFromCollector_u (HttpResponse status (JsonObj data)) = Inr [])"
proof -
  have "fetchNewsFromCollector_p r \<noteq> Inl e"
    using fetch_p_Inr [of r] by auto
  moreover have "fetchNewsFromCollector_u r \<noteq> Inl e"
    using fetch_u_Inr [of r] by auto
  ultimately show ?thesis
    by (simp add: fetchNewsFromCollector_p_def fetchNewsFromCollector_u_def
        fetchTry_p_def fetchTry_u_def)
qed

theorem C5_fetch_never_throws_witness:
  "\<not> ok 500 \<and> success \<lparr>success = Some False, news = None, crypto_news = None,
       general_news = None\<rparr> \<noteq> Some True \<and>
   fetchNewsFromCollector_p (HttpResponse 500 JsonReject) = Inr None \<and>
   fetchNewsFromCollector_u (HttpResponse 500 JsonReject) = Inr [] \<and>
   fetchNewsFromCollector_p failure0 = Inr None \<and>
   fetchNewsFromCollector_u failure0 = Inr [] \<and>
   fetchNewsFromCollector_p failure0 \<noteq> Inl TypeError"
proof -
  have status: "\<not> ok 500" by (simp add: ok_def)
  have flag: "success \<lparr>success = Some False, news = None, crypto_news = None,
      general_news = None\<rparr> \<noteq> Some True" by simp
  note inst = C5_fetch_never_throws [of failure0 TypeError 500 JsonReject
      "\<lparr>success = Some False, news = None, crypto_news = None, general_news = None\<rparr>"]
  have objs: "fetchNewsFromCollector_p (HttpResponse 200 (JsonObj \<lparr>success = Some False,
        news = None, crypto_news = None, general_news = None\<rparr>)) = Inr None \<and>
      fetchNewsFromCollector_u (HttpResponse 200 (JsonObj \<lparr>success = Some False,
        news = None, crypto_news = None, general_news = None\<rparr>)) = Inr []"
    using C5_fetch_never_throws [of failure0 TypeError 200 JsonReject
      "\<lparr>success = Some False, news = None, crypto_news = None, general_news = None\<rparr>"] flag
    by blast
  show ?thesis
    using inst status flag objs by (simp add: failure0_def)
qed

section \<open>The unified variant: what a cycle does\<close>

lemma addLinks_items: "None \<notin> set l \<Longrightarrow> \<exists>links'. addLinks links l = (None, links')"
proof (induction l arbitrary: links)
  case Nil
  then show ?case by simp
next
  case (Cons a l)
  then show ?case by (cases a) auto
qed

lemma addLinks_null: "None \<in> set l \<Longrightarrow> \<exists>links'. addLinks links l = (Some TypeError, links')"
proof (induction l arbitrary: links)
  case Nil
  then show ?case by simp
next
  case (Cons a l)
  then show ?case by (cases a) auto
qed

lemma renderItems_u_items:
  "None \<notin> set l \<Longrightarrow> \<exists>rs. renderItems_u h now i l = Inr rs \<and> length rs = length l"
proof (induction l arbitrary: i)
  case Nil
  then show ?case by simp
next
  case (Cons a l)
  from Cons.prems have "None \<notin> set l" by simp
  from Cons.IH [OF this, of "Suc i"] Cons.prems show ?case
    by (cases a) auto
qed

lemma renderItems_u_null: "None \<in> set l \<Longrightarrow> renderItems_u h now i l = Inl TypeError"
proof (induction l arbitrary: i)
  case Nil
  then show ?case by simp
next
  case (Cons a l)
  show ?case
  proof (cases a)
    case None
    then show ?thesis by simp
  next
    case (Some n)
    with Cons.prems have "None \<in> set l" by simp
    from Cons.IH [OF this, of "Suc i"] Some show ?thesis by simp
  qed
qed

lemma renderItems_u_exn: "renderItems_u h now i l = Inl e \<Longrightarrow> None \<in> set l"
  using renderItems_u_items [of l h now i] by (cases "None \<in> set l") auto

text \<open>New data, no entry \<open>null\<close>: the list is replaced and cut, rendered, the stats updated.\<close>

lemma cycle_u_data:
  assumes "fetchNewsFromCollector_u resp = Inr l" and "l \<noteq> []" and "None \<notin> set l"
  shows "\<exists>links rs.
     collectAndDisplayNews_u h now resp s =
       s\<lparr>newsList := take maxNewsCount_u l,
         sentNewsLinks_u := links,
         newsContainer := Items rs,
         loading_u := False,
         totalNews_u := Some (length (take maxNewsCount_u l)),
         lastUpdate_u := Some now\<rparr>
     \<and> renderItems_u h now 0 (take maxNewsCount_u l) = Inr rs"
proof -
  obtain links where a: "addLinks (sentNewsLinks_u s) l = (None, links)"
    using addLinks_items [OF assms(3)] by blast
  have "None \<notin> set (take maxNewsCount_u l)"
    using assms(3) by (auto dest: in_set_takeD)
  then obtain rs where r: "renderItems_u h now 0 (take maxNewsCount_u l) = Inr rs"
    using renderItems_u_items by blast
  have ne: "take maxNewsCount_u l \<noteq> []"
    using assms(2) by (simp add: maxNewsCount_u_def)
  have "collectAndDisplayNews_u h now resp s =
       s\<lparr>newsList := take maxNewsCount_u l,
         sentNewsLinks_u := links,
         newsContainer := Items rs,
         loading_u := False,
         totalNews_u := Some (length (take maxNewsCount_u l)),
         lastUpdate_u := Some now\<rparr>"
  proof (cases "maxNewsCount_u < length l")
    case True
    then show ?thesis
      using assms(1,2) a r ne
      by (simp add: collectAndDisplayNews_u_def cycleFinish_u_def cycleBegin_u_def
          tryBody_u_def Let_def showLoading_u_def updateStats_u_def displayNews_u_def
          displayAndStats_u_def)
  next
    case False
    then have whole: "take maxNewsCount_u l = l" by simp
    show ?thesis
      using False assms(1,2) a r [unfolded whole]
      by (simp add: collectAndDisplayNews_u_def cycleFinish_u_def cycleBegin_u_def
          tryBody_u_def Let_def showLoading_u_def updateStats_u_def displayNews_u_def
          displayAndStats_u_def)
  qed
  with r show ?thesis by blast
qed

text \<open>New data with a \<open>null\<close> entry: the list is replaced, then the \<open>forEach\<close> throws.\<close>

lemma cycle_u_data_null:
  assumes "fetchNewsFromCollector_u resp = Inr l" and "None \<in> set l"
  shows "\<exists>links.
     collectAndDisplayNews_u h now resp s =
       s\<lparr>newsList := l, sentNewsLinks_u := links, newsContainer := ErrorShown,
         loading_u := False\<rparr>"
proof -
  obtain links where a: "addLinks (sentNewsLinks_u s) l = (Some TypeError, links)"
    using addLinks_null [OF assms(2)] by blast
  have "l \<noteq> []" using assms(2) by auto
  then have "collectAndDisplayNews_u h now resp s =
       s\<lparr>newsList := l, sentNewsLinks_u := links, newsContainer := ErrorShown,
         loading_u := False\<rparr>"
    using assms(1) a
    by (simp add: collectAndDisplayNews_u_def cycleFinish_u_def cycleBegin_u_def
        tryBody_u_def Let_def showLoading_u_def showErrorMessage_u_def)
  then show ?thesis by blast
qed

text \<open>Nothing new.\<close>

lemma cycle_u_nodata_empty:
  assumes "fetchNewsFromCollector_u resp = Inr []" and "newsList s = []"
  shows "collectAndDisplayNews_u h now resp s = s\<lparr>newsContainer := NoNews, loading_u := False\<rparr>"
  using assms
  by (simp add: collectAndDisplayNews_u_def cycleFinish_u_def cycleBegin_u_def
      tryBody_u_def showLoading_u_def showNoNewsMessage_u_def)

lemma cycle_u_nodata_render:
  assumes "fetchNewsFromCollector_u resp = Inr []" and "newsList s \<noteq> []"
    and "renderItems_u h now 0 (newsList s) = Inr rs"
  shows "collectAndDisplayNews_u h now resp s =
     s\<lparr>newsContainer := Items rs, loading_u := False,
       totalNews_u := Some (length (newsList s)), lastUpdate_u := Some now\<rparr>"
  using assms
  by (simp add: collectAndDisplayNews_u_def cycleFinish_u_def cycleBegin_u_def
      tryBody_u_def showLoading_u_def updateStats_u_def displayNews_u_def
      displayAndStats_u_def)

lemma cycle_u_nodata_throws:
  assumes "fetchNewsFromCollector_u resp = Inr []" and "newsList s \<noteq> []"
    and "renderItems_u h now 0 (newsList s) = Inl e"
  shows "collectAndDisplayNews_u h now resp s =
     s\<lparr>newsContainer := ErrorShown, loading_u := False\<rparr>"
  using assms
  by (simp add: collectAndDisplayNews_u_def cycleFinish_u_def cycleBegin_u_def
      tryBody_u_def showLoading_u_def showErrorMessage_u_def displayNews_u_def
      displayAndStats_u_def)

lemma newsList_cycle_u:
  "fetchNewsFromCollector_u resp = Inr l \<Longrightarrow>
   newsList (collectAndDisplayNews_u h now resp s) =
     (if l = [] then newsList s
      else if None \<in> set l then l
      else take maxNewsCount_u l)"
proof -
  assume f: "fetchNewsFromCollector_u resp = Inr l"
  show ?thesis
  proof (cases "l = []")
    case True
    show ?thesis
    proof (cases "newsList s = []")
      case e: True
      from cycle_u_nodata_empty [OF f [unfolded True] e, of h now] True e show ?thesis
        by simp
    next
      case ne: False
      show ?thesis
      proof (cases "renderItems_u h now 0 (newsList s)")
        case (Inl e)
        from cycle_u_nodata_throws [OF f [unfolded True] ne Inl] True show ?thesis by simp
      next
        case (Inr rs)
        from cycle_u_nodata_render [OF f [unfolded True] ne Inr] True show ?thesis by simp
      qed
    qed
  next
    case False
    show ?thesis
    proof (cases "None \<in> set l")
      case True
      from cycle_u_data_null [OF f True, of h now s] False True show ?thesis by auto
    next
      case nn: False
      from cycle_u_data [OF f False nn, of h now s] False nn show ?thesis by auto
    qed
  qed
qed

text \<open>
  Claim C8, amended. In the unified variant, a successful payload of \<open>k \<ge> 1\<close> items
  leaves in the store exactly the first \<open>maxNewsCount\<close> items of the payload, in the
  order delivered: all \<open>k\<close> of them when \<open>k \<le> maxNewsCount\<close>, and \<open>maxNewsCount\<close>
  of them otherwise. (A payload of no items is not stored: the list stays as it was.)
\<close>

theorem C8_store_is_payload_prefix:
  assumes "ok status" and "success data = Some True" and "news data = Some l" and "l \<noteq> []"
    and "None \<notin> set l"
  shows
    "newsList (collectAndDisplayNews_u h now (HttpResponse status (JsonObj data)) s) =
       take maxNewsCount_u l \<and>
     (length l \<le> maxNewsCount_u \<longrightarrow>
        newsList (collectAndDisplayNews_u h now (HttpResponse status (JsonObj data)) s) = l) \<and>
     (maxNewsCount_u < length l \<longrightarrow>
        length (newsList (collectAndDisplayNews_u h now (HttpResponse status (JsonObj data)) s))
          = maxNewsCount_u)"
  using assms(4,5) newsList_cycle_u [OF fetch_u_success [OF assms(1-3)], of h now s]
  by simp

theorem C8_store_is_payload_prefix_witness:
  "ok 200 \<and>
   None \<notin> set [entry0 ''a'' (PNum 1), entry0 ''b'' (PNum 2)] \<and>
   newsList (collectAndDisplayNews_u host0 0
      (success0 (Some [entry0 ''a'' (PNum 1), entry0 ''b'' (PNum 2)]) None None) constructor_u)
     = [entry0 ''a'' (PNum 1), entry0 ''b'' (PNum 2)]"
proof -
  have status: "ok 200" by (simp add: ok_def)
  have two: "length [entry0 ''a'' (PNum 1), entry0 ''b'' (PNum 2)] \<le> maxNewsCount_u"
    by (simp add: maxNewsCount_u_def)
  have items: "None \<notin> set [entry0 ''a'' (PNum 1), entry0 ''b'' (PNum 2)]"
    by (simp add: entry0_def)
  show ?thesis
    using status two items
      C8_store_is_payload_prefix [OF status, of
        "\<lparr>success = Some True, news = Some [entry0 ''a'' (PNum 1), entry0 ''b'' (PNum 2)],
          crypto_news = None, general_news = None\<rparr>"
        "[entry0 ''a'' (PNum 1), entry0 ''b'' (PNum 2)]" host0 0 constructor_u]
    by (simp add: success0_def)
qed

text \<open>
  The claim as first worded fails for a payload of no items: with one item in the store,
  a successful response with the empty list leaves that item there.
\<close>

theorem C8_counterexample:
  "fetchNewsFromCollector_u (success0 (Some []) None None) = Inr [] \<and>
   length ([] :: entry list) \<le> maxNewsCount_u \<and>
   newsList (runCycles_u host0
      [(0, success0 (Some [entry0 ''a'' (PNum 1)]) None None),
       (30000, success0 (Some []) None None)] constructor_u) \<noteq> []"
  by (simp add: success0_def ok_def newsList_cycle_u fetch_u_success maxNewsCount_u_def
      entry0_def)

section \<open>What the display functions change\<close>

lemma renderItems_p_length:
  "renderItems_p h now i ns = Inr rs \<Longrightarrow> length rs = length ns"
proof (induction ns arbitrary: i rs)
  case Nil
  then show ?case by simp
next
  case (Cons n ns)
  then show ?case by (auto split: sum.splits option.splits)
qed

lemma displayGeneralNews_ok:
  "renderItems_p h now 0 (take maxNewsCount_p (generalNewsList s)) = Inr rs \<Longrightarrow>
   displayGeneralNews h now s =
     (None, s\<lparr>generalContainer := (if generalNewsList s = [] then NoNews else Items rs)\<rparr>)"
  by (simp add: displayGeneralNews_def Let_def maxNewsCount_p_def)

lemma displayGeneralNews_throws:
  "renderItems_p h now 0 (take maxNewsCount_p (generalNewsList s)) = Inl e \<Longrightarrow>
   displayGeneralNews h now s = (Some e, s)"
  by (auto simp add: displayGeneralNews_def Let_def maxNewsCount_p_def)

lemma displayCryptoNews_ok:
  "renderItems_p h now 0 (take maxNewsCount_p (cryptoNewsList s)) = Inr rs \<Longrightarrow>
   displayCryptoNews h now s =
     (None, s\<lparr>cryptoContainer := (if cryptoNewsList s = [] then NoNews else Items rs)\<rparr>)"
  by (simp add: displayCryptoNews_def Let_def maxNewsCount_p_def)

lemma displayCryptoNews_throws:
  "renderItems_p h now 0 (take maxNewsCount_p (cryptoNewsList s)) = Inl e \<Longrightarrow>
   displayCryptoNews h now s = (Some e, s)"
  by (auto simp add: displayCryptoNews_def Let_def maxNewsCount_p_def)

lemma displayNews_p_ok:
  assumes "renderItems_p h now 0 (take maxNewsCount_p (generalNewsList s)) = Inr rg"
    and "renderItems_p h now 0 (take maxNewsCount_p (cryptoNewsList s)) = Inr rc"
  shows "displayNews_p h now s =
     (None, s\<lparr>generalContainer := (if generalNewsList s = [] then NoNews else Items rg),
              cryptoContainer := (if cryptoNewsList s = [] then NoNews else Items rc)\<rparr>)"
proof -
  let ?s1 = "s\<lparr>generalContainer := (if generalNewsList s = [] then NoNews else Items rg)\<rparr>"
  have "renderItems_p h now 0 (take maxNewsCount_p (cryptoNewsList ?s1)) = Inr rc"
    using assms(2) by simp
  from displayCryptoNews_ok [OF this] show ?thesis
    by (simp add: displayNews_p_def displayGeneralNews_ok [OF assms(1)])
qed

lemma displayNews_p_throws:
  assumes "renderItems_p h now 0 (take maxNewsCount_p (generalNewsList s)) = Inl e
    \<or> renderItems_p h now 0 (take maxNewsCount_p (cryptoNewsList s)) = Inl e"
  shows "\<exists>e' s'. displayNews_p h now s = (Some e', s') \<and>
    cryptoNewsList s' = cryptoNewsList s \<and> generalNewsList s' = generalNewsList s \<and>
    totalNews_p s' = totalNews_p s \<and> lastUpdate_p s' = lastUpdate_p s"
proof (cases "renderItems_p h now 0 (take maxNewsCount_p (generalNewsList s))")
  case (Inl e1)
  then show ?thesis
    by (simp add: displayNews_p_def displayGeneralNews_throws)
next
  case (Inr rg)
  with assms have c: "renderItems_p h now 0 (take maxNewsCount_p (cryptoNewsList s)) = Inl e"
    by simp
  let ?s1 = "s\<lparr>generalContainer := (if generalNewsList s = [] then NoNews else Items rg)\<rparr>"
  have "renderItems_p h now 0 (take maxNewsCount_p (cryptoNewsList ?s1)) = Inl e"
    using c by simp
  from displayCryptoNews_throws [OF this] show ?thesis
    by (simp add: displayNews_p_def displayGeneralNews_ok [OF Inr])
qed

text \<open>The state after the \<open>try\<close> block, by what the rendering of the two lists does.\<close>

lemma displayAndStats_p_ok:
  assumes "renderItems_p h now 0 (take maxNewsCount_p (generalNewsList s)) = Inr rg"
    and "renderItems_p h now 0 (take maxNewsCount_p (cryptoNewsList s)) = Inr rc"
  shows "displayAndStats_p h now s =
     (None, s\<lparr>generalContainer := (if generalNewsList s = [] then NoNews else Items rg),
              cryptoContainer := (if cryptoNewsList s = [] then NoNews else Items rc),
              totalNews_p := Some (length (cryptoNewsList s) + length (generalNewsList s)),
              lastUpdate_p := Some now\<rparr>)"
  by (simp add: displayAndStats_p_def displayNews_p_ok [OF assms] updateStats_p_def)

lemma displayAndStats_p_throws:
  assumes "renderItems_p h now 0 (take maxNewsCount_p (generalNewsList s)) = Inl e
    \<or> renderItems_p h now 0 (take maxNewsCount_p (cryptoNewsList s)) = Inl e"
  shows "\<exists>e' s'. displayAndStats_p h now s = (Some e', s') \<and>
    cryptoNewsList s' = cryptoNewsList s \<and> generalNewsList s' = generalNewsList s \<and>
    totalNews_p s' = totalNews_p s \<and> lastUpdate_p s' = lastUpdate_p s"
  using displayNews_p_throws [OF assms] by (auto simp add: displayAndStats_p_def)

lemma displayAndStats_p_lists:
  "displayAndStats_p h now s = (eo, s') \<Longrightarrow>
   cryptoNewsList s' = cryptoNewsList s \<and> generalNewsList s' = generalNewsList s"
proof (cases "renderItems_p h now 0 (take maxNewsCount_p (generalNewsList s))")
  case (Inl e)
  assume r: "displayAndStats_p h now s = (eo, s')"
  from Inl displayAndStats_p_throws [of h now s e] r show ?thesis by auto
next
  case (Inr rg)
  assume r: "displayAndStats_p h now s = (eo, s')"
  show ?thesis
  proof (cases "renderItems_p h now 0 (take maxNewsCount_p (cryptoNewsList s))")
    case (Inl e)
    with displayAndStats_p_throws [of h now s e] r show ?thesis by auto
  next
    case Inr2: (Inr rc)
    from displayAndStats_p_ok [OF Inr Inr2] r show ?thesis by auto
  qed
qed

lemma displayAndStats_p_done:
  "displayAndStats_p h now s = (None, s') \<Longrightarrow>
   shown (generalContainer s') \<le> maxNewsCount_p \<and>
   shown (cryptoContainer s') \<le> maxNewsCount_p \<and>
   totalNews_p s' = Some (length (cryptoNewsList s') + length (generalNewsList s')) \<and>
   lastUpdate_p s' = Some now"
proof (cases "renderItems_p h now 0 (take maxNewsCount_p (generalNewsList s))")
  case (Inl e)
  assume r: "displayAndStats_p h now s = (None, s')"
  from Inl displayAndStats_p_throws [of h now s e] r show ?thesis by auto
next
  case (Inr rg)
  assume r: "displayAndStats_p h now s = (None, s')"
  show ?thesis
  proof (cases "renderItems_p h now 0 (take maxNewsCount_p (cryptoNewsList s))")
    case (Inl e)
    with displayAndStats_p_throws [of h now s e] r show ?thesis by auto
  next
    case Inr2: (Inr rc)
    have "length rg \<le> maxNewsCount_p" "length rc \<le> maxNewsCount_p"
      using renderItems_p_length [OF Inr] renderItems_p_length [OF Inr2] by simp_all
    with displayAndStats_p_ok [OF Inr Inr2] r show ?thesis by auto
  qed
qed

text \<open>The store of the partitioned variant after a cycle.\<close>

lemma tryBody_p_data:
  "fetchNewsFromCollector_p resp = Inr (Some data) \<Longrightarrow>
   tryBody_p h now resp s =
     displayAndStats_p h now
       (s\<lparr>cryptoNewsList := (case crypto_news data of Some l \<Rightarrow> l | None \<Rightarrow> []),
          generalNewsList := (case general_news data of Some l \<Rightarrow> l | None \<Rightarrow> [])\<rparr>)"
  by (simp add: tryBody_p_def)

lemma tryBody_p_nodata:
  "fetchNewsFromCollector_p resp = Inr None \<Longrightarrow>
   tryBody_p h now resp s =
     (if cryptoNewsList s = [] \<and> generalNewsList s = [] then (Some TypeError, s)
      else displayAndStats_p h now s)"
  by (simp add: tryBody_p_def)

lemma tryBody_p_done:
  assumes "tryBody_p h now resp s = (None, s')"
  shows "shown (generalContainer s') \<le> maxNewsCount_p \<and>
   shown (cryptoContainer s') \<le> maxNewsCount_p \<and>
   totalNews_p s' = Some (length (cryptoNewsList s') + length (generalNewsList s')) \<and>
   lastUpdate_p s' = Some now"
proof -
  obtain v where v: "fetchNewsFromCollector_p resp = Inr v"
    using fetch_p_Inr by blast
  show ?thesis
  proof (cases v)
    case None
    with v assms show ?thesis
      by (auto simp add: tryBody_p_nodata split: if_splits dest: displayAndStats_p_done)
  next
    case (Some data)
    with v assms show ?thesis
      by (auto simp add: tryBody_p_data dest: displayAndStats_p_done)
  qed
qed

lemma cycle_p_lists:
  "fetchNewsFromCollector_p resp = Inr v \<Longrightarrow>
   cryptoNewsList (collectAndDisplayNews_p h now resp s) =
     (case v of None \<Rightarrow> cryptoNewsList s
      | Some data \<Rightarrow> (case crypto_news data of Some l \<Rightarrow> l | None \<Rightarrow> [])) \<and>
   generalNewsList (collectAndDisplayNews_p h now resp s) =
     (case v of None \<Rightarrow> generalNewsList s
      | Some data \<Rightarrow> (case general_news data of Some l \<Rightarrow> l | None \<Rightarrow> []))"
proof (cases v)
  case None
  assume f: "fetchNewsFromCollector_p resp = Inr v"
  obtain eo s' where r: "tryBody_p h now resp (cycleBegin_p s) = (eo, s')"
    by (cases "tryBody_p h now resp (cycleBegin_p s)")
  have "cryptoNewsList s' = cryptoNewsList s \<and> generalNewsList s' = generalNewsList s"
    using r f None
    by (auto simp add: tryBody_p_nodata cycleBegin_p_def showLoading_p_def
        split: if_splits dest: displayAndStats_p_lists)
  then show ?thesis
    using r None
    by (simp add: collectAndDisplayNews_p_def cycleFinish_p_def showLoading_p_def
        showErrorMessage_p_def split: option.splits)
next
  case (Some data)
  assume f: "fetchNewsFromCollector_p resp = Inr v"
  obtain eo s' where r: "tryBody_p h now resp (cycleBegin_p s) = (eo, s')"
    by (cases "tryBody_p h now resp (cycleBegin_p s)")
  have "cryptoNewsList s' = (case crypto_news data of Some l \<Rightarrow> l | None \<Rightarrow> []) \<and>
      generalNewsList s' = (case general_news data of Some l \<Rightarrow> l | None \<Rightarrow> [])"
    using r f Some
    by (auto simp add: tryBody_p_data dest: displayAndStats_p_lists)
  then show ?thesis
    using r Some
    by (simp add: collectAndDisplayNews_p_def cycleFinish_p_def showLoading_p_def
        showErrorMessage_p_def split: option.splits)
qed

lemma cycle_p_shown:
  "shown (generalContainer (collectAndDisplayNews_p h now resp s)) \<le> maxNewsCount_p \<and>
   shown (cryptoContainer (collectAndDisplayNews_p h now resp s)) \<le> maxNewsCount_p"
proof -
  obtain eo s' where r: "tryBody_p h now resp (cycleBegin_p s) = (eo, s')"
    by (cases "tryBody_p h now resp (cycleBegin_p s)")
  show ?thesis
  proof (cases eo)
    case None
    with r tryBody_p_done [of h now resp "cycleBegin_p s" s'] show ?thesis
      by (simp add: collectAndDisplayNews_p_def cycleFinish_p_def showLoading_p_def)
  next
    case (Some e)
    with r show ?thesis
      by (simp add: collectAndDisplayNews_p_def cycleFinish_p_def showLoading_p_def
          showErrorMessage_p_def)
  qed
qed

lemma cycle_p_stats:
  assumes "generalContainer (collectAndDisplayNews_p h now resp s) \<noteq> ErrorShown"
  shows "totalNews_p (collectAndDisplayNews_p h now resp s) =
      Some (length (cryptoNewsList (collectAndDisplayNews_p h now resp s)) +
            length (generalNewsList (collectAndDisplayNews_p h now resp s))) \<and>
    lastUpdate_p (collectAndDisplayNews_p h now resp s) = Some now"
proof -
  obtain eo s' where r: "tryBody_p h now resp (cycleBegin_p s) = (eo, s')"
    by (cases "tryBody_p h now resp (cycleBegin_p s)")
  show ?thesis
  proof (cases eo)
    case None
    with r tryBody_p_done [of h now resp "cycleBegin_p s" s'] show ?thesis
      by (simp add: collectAndDisplayNews_p_def cycleFinish_p_def showLoading_p_def)
  next
    case (Some e)
    with r assms show ?thesis
      by (simp add: collectAndDisplayNews_p_def cycleFinish_p_def showLoading_p_def
          showErrorMessage_p_def)
  qed
qed

section \<open>The unified variant: what every cycle keeps\<close>

lemma cycle_u_bounded:
  assumes "length (newsList s) \<le> maxNewsCount_u \<or> None \<in> set (newsList s)"
  shows
    "(length (newsList (collectAndDisplayNews_u h now resp s)) \<le> maxNewsCount_u \<or>
      None \<in> set (newsList (collectAndDisplayNews_u h now resp s))) \<and>
     (newsContainer (collectAndDisplayNews_u h now resp s) \<noteq> ErrorShown \<longrightarrow>
      length (newsList (collectAndDisplayNews_u h now resp s)) \<le> maxNewsCount_u)"
proof -
  obtain l where f: "fetchNewsFromCollector_u resp = Inr l"
    using fetch_u_Inr by blast
  show ?thesis
  proof (cases "l = []")
    case True
    note f0 = f [unfolded True]
    show ?thesis
    proof (cases "newsList s = []")
      case e: True
      from cycle_u_nodata_empty [OF f0 e, of h now] e show ?thesis by simp
    next
      case ne: False
      show ?thesis
      proof (cases "renderItems_u h now 0 (newsList s)")
        case (Inl e)
        from cycle_u_nodata_throws [OF f0 ne Inl] assms show ?thesis by simp
      next
        case (Inr rs)
        have "None \<notin> set (newsList s)"
          using renderItems_u_null [of "newsList s" h now 0] Inr by auto
        with cycle_u_nodata_render [OF f0 ne Inr] assms show ?thesis by simp
      qed
    qed
  next
    case False
    show ?thesis
    proof (cases "None \<in> set l")
      case True
      from cycle_u_data_null [OF f True, of h now s] True show ?thesis by auto
    next
      case nn: False
      from cycle_u_data [OF f False nn, of h now s] show ?thesis by auto
    qed
  qed
qed

lemma run_u_bounded:
  assumes "length (newsList s) \<le> maxNewsCount_u \<or> None \<in> set (newsList s)"
    and "newsContainer s \<noteq> ErrorShown \<longrightarrow> length (newsList s) \<le> maxNewsCount_u"
  shows "newsContainer (runCycles_u h cs s) \<noteq> ErrorShown \<longrightarrow>
    length (newsList (runCycles_u h cs s)) \<le> maxNewsCount_u"
  using assms
proof (induction cs arbitrary: s)
  case Nil
  then show ?case by simp
next
  case (Cons c cs)
  obtain now resp where c: "c = (now, resp)" by (cases c)
  from cycle_u_bounded [OF Cons.prems(1), of h now resp]
  show ?case
    unfolding c runCycles_u.simps
    by (intro Cons.IH) simp_all
qed

lemma cycle_u_items:
  assumes "length (newsList s) \<le> maxNewsCount_u" and "None \<notin> set (newsList s)"
    and "fetchNewsFromCollector_u resp = Inr l" and "None \<notin> set l"
  shows "length (newsList (collectAndDisplayNews_u h now resp s)) \<le> maxNewsCount_u \<and>
     None \<notin> set (newsList (collectAndDisplayNews_u h now resp s)) \<and>
     newsContainer (collectAndDisplayNews_u h now resp s) \<noteq> ErrorShown"
proof (cases "l = []")
  case True
  note f0 = assms(3) [unfolded True]
  show ?thesis
  proof (cases "newsList s = []")
    case e: True
    from cycle_u_nodata_empty [OF f0 e, of h now] e show ?thesis by simp
  next
    case ne: False
    obtain rs where r: "renderItems_u h now 0 (newsList s) = Inr rs"
      using renderItems_u_items [OF assms(2)] by blast
    from cycle_u_nodata_render [OF f0 ne r] assms(1,2) show ?thesis by simp
  qed
next
  case False
  have "None \<notin> set (take maxNewsCount_u l)"
    using assms(4) by (auto dest: in_set_takeD)
  with cycle_u_data [OF assms(3) False assms(4), of h now s] show ?thesis by auto
qed

lemma run_u_items:
  assumes "length (newsList s) \<le> maxNewsCount_u" and "None \<notin> set (newsList s)"
    and "newsContainer s \<noteq> ErrorShown"
    and "\<forall>c \<in> set cs. \<forall>l. fetchNewsFromCollector_u (snd c) = Inr l \<longrightarrow> None \<notin> set l"
  shows "length (newsList (runCycles_u h cs s)) \<le> maxNewsCount_u \<and>
     newsContainer (runCycles_u h cs s) \<noteq> ErrorShown"
  using assms
proof (induction cs arbitrary: s)
  case Nil
  then show ?case by simp
next
  case (Cons c cs)
  obtain now resp where c: "c = (now, resp)" by (cases c)
  obtain l where f: "fetchNewsFromCollector_u resp = Inr l"
    using fetch_u_Inr by blast
  have nn: "None \<notin> set l"
    using Cons.prems(4) f c by auto
  from cycle_u_items [OF Cons.prems(1,2) f nn, of h now] Cons.prems(4)
  show ?case
    unfolding c runCycles_u.simps
    by (intro Cons.IH) simp_all
qed

lemma cycle_u_stats:
  assumes "fetchNewsFromCollector_u resp = Inr l"
    and "newsContainer (collectAndDisplayNews_u h now resp s) \<noteq> ErrorShown"
    and "l \<noteq> [] \<or> newsList s \<noteq> []"
  shows "totalNews_u (collectAndDisplayNews_u h now resp s) =
      Some (length (newsList (collectAndDisplayNews_u h now resp s))) \<and>
    lastUpdate_u (collectAndDisplayNews_u h now resp s) = Some now"
proof (cases "l = []")
  case True
  note f0 = assms(1) [unfolded True]
  from assms(3) True have ne: "newsList s \<noteq> []" by simp
  show ?thesis
  proof (cases "renderItems_u h now 0 (newsList s)")
    case (Inl e)
    from cycle_u_nodata_throws [OF f0 ne Inl] assms(2) show ?thesis by simp
  next
    case (Inr rs)
    from cycle_u_nodata_render [OF f0 ne Inr] show ?thesis by simp
  qed
next
  case False
  show ?thesis
  proof (cases "None \<in> set l")
    case True
    from cycle_u_data_null [OF assms(1) True, of h now s] assms(2) show ?thesis by auto
  next
    case nn: False
    from cycle_u_data [OF assms(1) False nn, of h now s] show ?thesis by auto
  qed
qed

section \<open>The cap on the store\<close>

text \<open>
  Claim C1, amended. In the unified variant \<open>newsList\<close> has at most \<open>maxNewsCount = 50\<close>
  entries after every update cycle that does not end in the error display, and so after
  every cycle of a run in which no payload has a \<open>null\<close> entry. In the partitioned
  variant the cap \<open>maxNewsCount = 5\<close> is on what is rendered: after every cycle each
  container shows at most 5 items, while \<open>cryptoNewsList\<close> and \<open>generalNewsList\<close> hold
  the lists of the payload as delivered, of any length.
\<close>

theorem C1_caps:
  "maxNewsCount_u = 50 \<and> maxNewsCount_p = 5 \<and>
   (newsContainer (runCycles_u h cs constructor_u) \<noteq> ErrorShown \<longrightarrow>
      length (newsList (runCycles_u h cs constructor_u)) \<le> maxNewsCount_u) \<and>
   ((\<forall>c \<in> set cs. \<forall>l. fetchNewsFromCollector_u (snd c) = Inr l \<longrightarrow> None \<notin> set l) \<longrightarrow>
      length (newsList (runCycles_u h cs constructor_u)) \<le> maxNewsCount_u \<and>
      newsContainer (runCycles_u h cs constructor_u) \<noteq> ErrorShown) \<and>
   shown (generalContainer (collectAndDisplayNews_p h now resp s)) \<le> maxNewsCount_p \<and>
   shown (cryptoContainer (collectAndDisplayNews_p h now resp s)) \<le> maxNewsCount_p \<and>
   (fetchNewsFromCollector_p resp = Inr (Some data) \<longrightarrow>
      cryptoNewsList (collectAndDisplayNews_p h now resp s) =
        (case crypto_news data of Some l \<Rightarrow> l | None \<Rightarrow> []) \<and>
      generalNewsList (collectAndDisplayNews_p h now resp s) =
        (case general_news data of Some l \<Rightarrow> l | None \<Rightarrow> []))"
proof -
  have u1: "newsContainer (runCycles_u h cs constructor_u) \<noteq> ErrorShown \<longrightarrow>
      length (newsList (runCycles_u h cs constructor_u)) \<le> maxNewsCount_u"
    by (rule run_u_bounded) (simp_all add: constructor_u_def)
  have u2: "(\<forall>c \<in> set cs. \<forall>l. fetchNewsFromCollector_u (snd c) = Inr l \<longrightarrow> None \<notin> set l) \<longrightarrow>
      length (newsList (runCycles_u h cs constructor_u)) \<le> maxNewsCount_u \<and>
      newsContainer (runCycles_u h cs constructor_u) \<noteq> ErrorShown"
  proof
    assume a: "\<forall>c \<in> set cs. \<forall>l. fetchNewsFromCollector_u (snd c) = Inr l \<longrightarrow> None \<notin> set l"
    show "length (newsList (runCycles_u h cs constructor_u)) \<le> maxNewsCount_u \<and>
      newsContainer (runCycles_u h cs constructor_u) \<noteq> ErrorShown"
      by (rule run_u_items [OF _ _ _ a]) (simp_all add: constructor_u_def)
  qed
  have p: "fetchNewsFromCollector_p resp = Inr (Some data) \<longrightarrow>
      cryptoNewsList (collectAndDisplayNews_p h now resp s) =
        (case crypto_news data of Some l \<Rightarrow> l | None \<Rightarrow> []) \<and>
      generalNewsList (collectAndDisplayNews_p h now resp s) =
        (case general_news data of Some l \<Rightarrow> l | None \<Rightarrow> [])"
    using cycle_p_lists [of resp "Some data" h now s] by simp
  show ?thesis
    using u1 u2 p cycle_p_shown [of h now resp s]
    by (simp add: maxNewsCount_u_def maxNewsCount_p_def)
qed

theorem C1_caps_witness:
  "fetchNewsFromCollector_u (success0 (Some [entry0 ''a'' (PNum 1)]) None None) =
     Inr [entry0 ''a'' (PNum 1)] \<and>
   None \<notin> set [entry0 ''a'' (PNum 1)] \<and>
   fetchNewsFromCollector_u failure0 = Inr [] \<and>
   newsContainer (runCycles_u host0
      [(0, success0 (Some [entry0 ''a'' (PNum 1)]) None None), (30000, failure0)]
      constructor_u) \<noteq> ErrorShown \<and>
   length (newsList (runCycles_u host0
      [(0, success0 (Some [entry0 ''a'' (PNum 1)]) None None), (30000, failure0)]
      constructor_u)) \<le> 50 \<and>
   fetchNewsFromCollector_p (success0 None (Some [entry0 ''a'' (PNum 1)]) None) =
     Inr (Some \<lparr>success = Some True, news = None, crypto_news = Some [entry0 ''a'' (PNum 1)],
       general_news = None\<rparr>) \<and>
   cryptoNewsList (collectAndDisplayNews_p host0 0
      (success0 None (Some [entry0 ''a'' (PNum 1)]) None) constructor_p)
     = [entry0 ''a'' (PNum 1)] \<and>
   generalNewsList (collectAndDisplayNews_p host0 0
      (success0 None (Some [entry0 ''a'' (PNum 1)]) None) constructor_p) = []"
proof -
  have fu: "fetchNewsFromCollector_u (success0 (Some [entry0 ''a'' (PNum 1)]) None None) =
      Inr [entry0 ''a'' (PNum 1)]"
    by (simp add: success0_def fetch_u_success ok_def)
  have f0: "fetchNewsFromCollector_u failure0 = Inr []"
    by (simp add: failure0_def fetchNewsFromCollector_u_def fetchTry_u_def ok_def)
  have items: "\<forall>c \<in> set [(0, success0 (Some [entry0 ''a'' (PNum 1)]) None None), (30000, failure0)].
      \<forall>l. fetchNewsFromCollector_u (snd c) = Inr l \<longrightarrow> None \<notin> set l"
    using fu f0 by (simp add: entry0_def)
  have f: "fetchNewsFromCollector_p (success0 None (Some [entry0 ''a'' (PNum 1)]) None) =
     Inr (Some \<lparr>success = Some True, news = None, crypto_news = Some [entry0 ''a'' (PNum 1)],
       general_news = None\<rparr>)"
    by (simp add: success0_def fetch_p_success ok_def)
  have item: "None \<notin> set [entry0 ''a'' (PNum 1)]"
    by (simp add: entry0_def)
  show ?thesis
    using items item fu f0 f
      C1_caps [of host0
        "[(0, success0 (Some [entry0 ''a'' (PNum 1)]) None None), (30000, failure0)]"
        0 "success0 None (Some [entry0 ''a'' (PNum 1)]) None"
        constructor_p "\<lparr>success = Some True, news = None,
          crypto_news = Some [entry0 ''a'' (PNum 1)], general_news = None\<rparr>"]
    by simp
qed

text \<open>
  The claim as first worded fails in the partitioned variant: a payload of six crypto
  items leaves six items in \<open>cryptoNewsList\<close>. In the unified variant it fails for a
  payload with a \<open>null\<close> entry: the \<open>forEach\<close> throws after the list has been replaced
  and before it is cut, and a payload of 51 entries stays in \<open>newsList\<close>.
\<close>

theorem C1_counterexample:
  "length (cryptoNewsList (collectAndDisplayNews_p host0 0
      (success0 None (Some (map (\<lambda>i. entry0 ''a'' (PNum i)) [1, 2, 3, 4, 5, 6])) None)
      constructor_p)) = 6 \<and>
   \<not> (6::nat) \<le> maxNewsCount_p \<and>
   length (newsList (collectAndDisplayNews_u host0 0
      (success0 (Some (None # replicate 50 (entry0 ''a'' (PNum 1)))) None None)
      constructor_u)) = 51 \<and>
   \<not> (51::nat) \<le> maxNewsCount_u"
proof -
  have "fetchNewsFromCollector_p
      (success0 None (Some (map (\<lambda>i. entry0 ''a'' (PNum i)) [1, 2, 3, 4, 5, 6])) None) =
     Inr (Some \<lparr>success = Some True, news = None,
       crypto_news = Some (map (\<lambda>i. entry0 ''a'' (PNum i)) [1, 2, 3, 4, 5, 6]),
       general_news = None\<rparr>)"
    by (simp add: success0_def fetch_p_success ok_def)
  from cycle_p_lists [OF this, of host0 0 constructor_p]
  have p: "length (cryptoNewsList (collectAndDisplayNews_p host0 0
      (success0 None (Some (map (\<lambda>i. entry0 ''a'' (PNum i)) [1, 2, 3, 4, 5, 6])) None)
      constructor_p)) = 6"
    by simp
  have "fetchNewsFromCollector_u
      (success0 (Some (None # replicate 50 (entry0 ''a'' (PNum 1)))) None None) =
     Inr (None # replicate 50 (entry0 ''a'' (PNum 1)))"
    by (simp add: success0_def fetch_u_success ok_def)
  from newsList_cycle_u [OF this, of host0 0 constructor_u]
  have u: "length (newsList (collectAndDisplayNews_u host0 0
      (success0 (Some (None # replicate 50 (entry0 ''a'' (PNum 1)))) None None)
      constructor_u)) = 51"
    by simp
  show ?thesis
    using p u by (simp add: maxNewsCount_p_def maxNewsCount_u_def)
qed

section \<open>Cycles without new data\<close>

text \<open>
  Claim C3, amended. When \<open>fetchNewsFromCollector\<close> returns its no-data value (\<open>null\<close>
  in the partitioned variant: transport failure, status outside 2xx, unparsable body,
  \<open>success\<close> false or absent; the empty list in the unified variant: the same, or a
  missing or empty \<open>news\<close> list), the cycle leaves the stored list or lists exactly as
  they were, and a store that was not empty is rendered again from the same entries,
  where rendering throws on none of those rendered (none is \<open>null\<close> and, in the
  partitioned variant, \<open>getTimeAgo\<close> throws on none). This holds for a response
  \<open>{success: false}\<close>. In the partitioned variant a successful response with empty
  lists is not a no-data outcome: it replaces both lists.
\<close>

theorem C3_no_data_keeps_store:
  "(fetchNewsFromCollector_u resp = Inr [] \<longrightarrow>
      newsList (collectAndDisplayNews_u h now resp su) = newsList su \<and>
      (newsList su \<noteq> [] \<and> renderItems_u h now 0 (newsList su) = Inr ru \<longrightarrow>
         newsContainer (collectAndDisplayNews_u h now resp su) = Items ru)) \<and>
   (None \<notin> set (newsList su) \<longrightarrow> (\<exists>rs. renderItems_u h now 0 (newsList su) = Inr rs)) \<and>
   (fetchNewsFromCollector_p resp = Inr None \<longrightarrow>
      cryptoNewsList (collectAndDisplayNews_p h now resp sp) = cryptoNewsList sp \<and>
      generalNewsList (collectAndDisplayNews_p h now resp sp) = generalNewsList sp \<and>
      ((cryptoNewsList sp \<noteq> [] \<or> generalNewsList sp \<noteq> []) \<and>
       renderItems_p h now 0 (take maxNewsCount_p (generalNewsList sp)) = Inr rg \<and>
       renderItems_p h now 0 (take maxNewsCount_p (cryptoNewsList sp)) = Inr rc \<longrightarrow>
         generalContainer (collectAndDisplayNews_p h now resp sp) =
           (if generalNewsList sp = [] then NoNews else Items rg) \<and>
         cryptoContainer (collectAndDisplayNews_p h now resp sp) =
           (if cryptoNewsList sp = [] then NoNews else Items rc))) \<and>
   (fetchNewsFromCollector_p resp = Inr (Some payload) \<longrightarrow>
      cryptoNewsList (collectAndDisplayNews_p h now resp sp) =
        (case crypto_news payload of Some l \<Rightarrow> l | None \<Rightarrow> []) \<and>
      generalNewsList (collectAndDisplayNews_p h now resp sp) =
        (case general_news payload of Some l \<Rightarrow> l | None \<Rightarrow> [])) \<and>
   fetchNewsFromCollector_u (HttpResponse status (JsonObj (data\<lparr>success := Some False\<rparr>)))
     = Inr [] \<and>
   fetchNewsFromCollector_p (HttpResponse status (JsonObj (data\<lparr>success := Some False\<rparr>)))
     = Inr None \<and>
   (news data = Some [] \<or> news data = None \<longrightarrow>
      fetchNewsFromCollector_u (HttpResponse status (JsonObj data)) = Inr [])"
proof -
  have u_list: "fetchNewsFromCollector_u resp = Inr [] \<longrightarrow>
      newsList (collectAndDisplayNews_u h now resp su) = newsList su"
    by (simp add: newsList_cycle_u)
  have u_view: "fetchNewsFromCollector_u resp = Inr [] \<longrightarrow>
      newsList su \<noteq> [] \<and> renderItems_u h now 0 (newsList su) = Inr ru \<longrightarrow>
      newsContainer (collectAndDisplayNews_u h now resp su) = Items ru"
    by (auto simp add: cycle_u_nodata_render)
  have u_items: "None \<notin> set (newsList su) \<longrightarrow>
      (\<exists>rs. renderItems_u h now 0 (newsList su) = Inr rs)"
    using renderItems_u_items [of "newsList su" h now 0] by blast
  have p_lists: "fetchNewsFromCollector_p resp = Inr None \<longrightarrow>
      cryptoNewsList (collectAndDisplayNews_p h now resp sp) = cryptoNewsList sp \<and>
      generalNewsList (collectAndDisplayNews_p h now resp sp) = generalNewsList sp"
    using cycle_p_lists [of resp None h now sp] by simp
  have p_data: "fetchNewsFromCollector_p resp = Inr (Some payload) \<longrightarrow>
      cryptoNewsList (collectAndDisplayNews_p h now resp sp) =
        (case crypto_news payload of Some l \<Rightarrow> l | None \<Rightarrow> []) \<and>
      generalNewsList (collectAndDisplayNews_p h now resp sp) =
        (case general_news payload of Some l \<Rightarrow> l | None \<Rightarrow> [])"
    using cycle_p_lists [of resp "Some payload" h now sp] by simp
  have p_view: "generalContainer (collectAndDisplayNews_p h now resp sp) =
           (if generalNewsList sp = [] then NoNews else Items rg) \<and>
         cryptoContainer (collectAndDisplayNews_p h now resp sp) =
           (if cryptoNewsList sp = [] then NoNews else Items rc)"
    if f: "fetchNewsFromCollector_p resp = Inr None"
      and ne: "cryptoNewsList sp \<noteq> [] \<or> generalNewsList sp \<noteq> []"
      and g: "renderItems_p h now 0 (take maxNewsCount_p (generalNewsList sp)) = Inr rg"
      and c: "renderItems_p h now 0 (take maxNewsCount_p (cryptoNewsList sp)) = Inr rc"
  proof -
    have g': "renderItems_p h now 0 (take maxNewsCount_p (generalNewsList (cycleBegin_p sp)))
        = Inr rg"
      using g by (simp add: cycleBegin_p_def showLoading_p_def)
    have c': "renderItems_p h now 0 (take maxNewsCount_p (cryptoNewsList (cycleBegin_p sp)))
        = Inr rc"
      using c by (simp add: cycleBegin_p_def showLoading_p_def)
    have ne': "\<not> (cryptoNewsList (cycleBegin_p sp) = [] \<and> generalNewsList (cycleBegin_p sp) = [])"
      using ne by (simp add: cycleBegin_p_def showLoading_p_def)
    have "tryBody_p h now resp (cycleBegin_p sp) = displayAndStats_p h now (cycleBegin_p sp)"
      using ne' by (auto simp add: tryBody_p_nodata [OF f])
    then have "collectAndDisplayNews_p h now resp sp =
        showLoading_p False (snd (displayAndStats_p h now (cycleBegin_p sp)))"
      by (simp add: collectAndDisplayNews_p_def cycleFinish_p_def
          displayAndStats_p_ok [OF g' c'])
    then show ?thesis
      by (simp add: displayAndStats_p_ok [OF g' c'] showLoading_p_def)
        (simp add: cycleBegin_p_def showLoading_p_def)
  qed
  have flags: "fetchNewsFromCollector_u
        (HttpResponse status (JsonObj (data\<lparr>success := Some False\<rparr>))) = Inr [] \<and>
      fetchNewsFromCollector_p
        (HttpResponse status (JsonObj (data\<lparr>success := Some False\<rparr>))) = Inr None \<and>
      (news data = Some [] \<or> news data = None \<longrightarrow>
        fetchNewsFromCollector_u (HttpResponse status (JsonObj data)) = Inr [])"
    by (auto simp add: fetchNewsFromCollector_u_def fetchNewsFromCollector_p_def
        fetchTry_u_def fetchTry_p_def)
  show ?thesis
    using u_list u_view u_items p_lists p_data p_view flags by blast
qed

theorem C3_no_data_keeps_store_witness:
  "fetchNewsFromCollector_u failure0 = Inr [] \<and>
   fetchNewsFromCollector_p failure0 = Inr None \<and>
   newsList (collectAndDisplayNews_u host0 5000 failure0
      (constructor_u\<lparr>newsList := [entry0 ''a'' (PNum 1)]\<rparr>)) = [entry0 ''a'' (PNum 1)] \<and>
   newsContainer (collectAndDisplayNews_u host0 5000 failure0
      (constructor_u\<lparr>newsList := [entry0 ''a'' (PNum 1)]\<rparr>)) =
     Items [\<lparr>r_item = item0 ''a'' (PNum 1), r_timeAgo = JustNow, r_isNew = True\<rparr>] \<and>
   cryptoNewsList (collectAndDisplayNews_p host0 5000 failure0
      (constructor_p\<lparr>cryptoNewsList := [entry0 ''a'' (PNum 1)]\<rparr>)) = [entry0 ''a'' (PNum 1)] \<and>
   generalContainer (collectAndDisplayNews_p host0 5000 failure0
      (constructor_p\<lparr>cryptoNewsList := [entry0 ''a'' (PNum 1)]\<rparr>)) = NoNews \<and>
   cryptoContainer (collectAndDisplayNews_p host0 5000 failure0
      (constructor_p\<lparr>cryptoNewsList := [entry0 ''a'' (PNum 1)]\<rparr>)) =
     Items [\<lparr>r_item = item0 ''a'' (PNum 1), r_timeAgo = JustNow, r_isNew = True\<rparr>]"
proof -
  have fu: "fetchNewsFromCollector_u failure0 = Inr []"
    by (simp add: failure0_def fetchNewsFromCollector_u_def fetchTry_u_def ok_def)
  have fp: "fetchNewsFromCollector_p failure0 = Inr None"
    by (simp add: failure0_def fetchNewsFromCollector_p_def fetchTry_p_def ok_def)
  have rg: "renderItems_p host0 5000 0 (take maxNewsCount_p
      (generalNewsList (constructor_p\<lparr>cryptoNewsList := [entry0 ''a'' (PNum 1)]\<rparr>))) = Inr []"
    by (simp add: constructor_p_def)
  have rc: "renderItems_p host0 5000 0 (take maxNewsCount_p
      (cryptoNewsList (constructor_p\<lparr>cryptoNewsList := [entry0 ''a'' (PNum 1)]\<rparr>))) =
      Inr [\<lparr>r_item = item0 ''a'' (PNum 1), r_timeAgo = JustNow, r_isNew = True\<rparr>]"
    by (simp add: maxNewsCount_p_def entry0_def item0_def getTimeAgo_p_PNum
        relativeLabel_doc_def doubleExact_def)
  have ru: "renderItems_u host0 5000 0
      (newsList (constructor_u\<lparr>newsList := [entry0 ''a'' (PNum 1)]\<rparr>)) =
      Inr [\<lparr>r_item = item0 ''a'' (PNum 1), r_timeAgo = JustNow, r_isNew = True\<rparr>]"
    by (simp add: entry0_def item0_def getTimeAgo_u_PNum relativeLabel_doc_def
        doubleExact_def maxDateMs_def)
  show ?thesis
    using fu fp rg rc ru
      C3_no_data_keeps_store [of failure0 host0 5000
        "constructor_u\<lparr>newsList := [entry0 ''a'' (PNum 1)]\<rparr>"
        "[\<lparr>r_item = item0 ''a'' (PNum 1), r_timeAgo = JustNow, r_isNew = True\<rparr>]"
        "constructor_p\<lparr>cryptoNewsList := [entry0 ''a'' (PNum 1)]\<rparr>"
        "[]" "[\<lparr>r_item = item0 ''a'' (PNum 1), r_timeAgo = JustNow, r_isNew = True\<rparr>]"]
    by (simp add: constructor_p_def entry0_def)
qed

text \<open>
  The claim as first worded counts an empty item list as a no-data outcome in both
  variants. In the partitioned variant a successful response with empty lists empties a
  store that held an item.
\<close>

theorem C3_counterexample:
  "cryptoNewsList (runCycles_p host0
      [(0, success0 None (Some [entry0 ''a'' (PNum 1)]) (Some []))] constructor_p)
     = [entry0 ''a'' (PNum 1)] \<and>
   cryptoNewsList (runCycles_p host0
      [(0, success0 None (Some [entry0 ''a'' (PNum 1)]) (Some [])),
       (30000, success0 None (Some []) (Some []))] constructor_p) = []"
proof -
  have f: "fetchNewsFromCollector_p (success0 None c g) =
      Inr (Some \<lparr>success = Some True, news = None, crypto_news = c, general_news = g\<rparr>)"
    for c g
    by (simp add: success0_def fetch_p_success ok_def)
  show ?thesis
    by (simp add: cycle_p_lists [OF f])
qed

section \<open>The stats surface\<close>

text \<open>
  Claim C6, amended. The stats (total count and time of the last update) are recomputed
  on every cycle that renders the stored list or lists. In the unified variant that is
  every cycle that does not end in the error display, except one without new data on an
  empty store: there only the no-news message is shown and the stats stay as they were,
  which is the case of a first cycle receiving \<open>{success: true, news: []}\<close>. In the
  partitioned variant it is every cycle that does not end in the error display; a first
  cycle receiving a successful response with empty lists shows both empty-list messages
  and the count 0. A unified cycle ends in the error display only when an entry of the
  payload or of the store is \<open>null\<close>.
\<close>

theorem C6_stats:
  "(fetchNewsFromCollector_u resp = Inr l \<longrightarrow>
      (newsContainer (collectAndDisplayNews_u h now resp su) \<noteq> ErrorShown \<and>
       (l \<noteq> [] \<or> newsList su \<noteq> []) \<longrightarrow>
         totalNews_u (collectAndDisplayNews_u h now resp su) =
           Some (length (newsList (collectAndDisplayNews_u h now resp su))) \<and>
         lastUpdate_u (collectAndDisplayNews_u h now resp su) = Some now) \<and>
      (None \<notin> set l \<and> None \<notin> set (newsList su) \<longrightarrow>
         newsContainer (collectAndDisplayNews_u h now resp su) \<noteq> ErrorShown) \<and>
      (l = [] \<and> newsList su = [] \<longrightarrow>
         newsContainer (collectAndDisplayNews_u h now resp su) = NoNews \<and>
         totalNews_u (collectAndDisplayNews_u h now resp su) = totalNews_u su \<and>
         lastUpdate_u (collectAndDisplayNews_u h now resp su) = lastUpdate_u su)) \<and>
   (generalContainer (collectAndDisplayNews_p h now resp sp) \<noteq> ErrorShown \<longrightarrow>
      totalNews_p (collectAndDisplayNews_p h now resp sp) =
        Some (length (cryptoNewsList (collectAndDisplayNews_p h now resp sp)) +
              length (generalNewsList (collectAndDisplayNews_p h now resp sp))) \<and>
      lastUpdate_p (collectAndDisplayNews_p h now resp sp) = Some now) \<and>
   (ok status \<and> success data = Some True \<and>
    (crypto_news data = None \<or> crypto_news data = Some []) \<and>
    (general_news data = None \<or> general_news data = Some []) \<longrightarrow>
      generalContainer (collectAndDisplayNews_p h now (HttpResponse status (JsonObj data)) sp)
        = NoNews \<and>
      cryptoContainer (collectAndDisplayNews_p h now (HttpResponse status (JsonObj data)) sp)
        = NoNews \<and>
      totalNews_p (collectAndDisplayNews_p h now (HttpResponse status (JsonObj data)) sp)
        = Some 0 \<and>
      lastUpdate_p (collectAndDisplayNews_p h now (HttpResponse status (JsonObj data)) sp)
        = Some now)"
proof -
  have u_stats: "fetchNewsFromCollector_u resp = Inr l \<longrightarrow>
      newsContainer (collectAndDisplayNews_u h now resp su) \<noteq> ErrorShown \<and>
       (l \<noteq> [] \<or> newsList su \<noteq> []) \<longrightarrow>
         totalNews_u (collectAndDisplayNews_u h now resp su) =
           Some (length (newsList (collectAndDisplayNews_u h now resp su))) \<and>
         lastUpdate_u (collectAndDisplayNews_u h now resp su) = Some now"
    using cycle_u_stats [of resp l h now su] by blast
  have u_ok: "newsContainer (collectAndDisplayNews_u h now resp su) \<noteq> ErrorShown"
    if f: "fetchNewsFromCollector_u resp = Inr l"
      and nl: "None \<notin> set l" and ns: "None \<notin> set (newsList su)"
  proof (cases "l = []")
    case True
    show ?thesis
    proof (cases "newsList su = []")
      case e: True
      from cycle_u_nodata_empty [OF f [unfolded True] e, of h now] show ?thesis by simp
    next
      case ne: False
      obtain rs where r: "renderItems_u h now 0 (newsList su) = Inr rs"
        using renderItems_u_items [OF ns] by blast
      from cycle_u_nodata_render [OF f [unfolded True] ne r] show ?thesis by simp
    qed
  next
    case False
    from cycle_u_data [OF f False nl, of h now su] show ?thesis by auto
  qed
  have u_empty: "fetchNewsFromCollector_u resp = Inr l \<longrightarrow> l = [] \<and> newsList su = [] \<longrightarrow>
         newsContainer (collectAndDisplayNews_u h now resp su) = NoNews \<and>
         totalNews_u (collectAndDisplayNews_u h now resp su) = totalNews_u su \<and>
         lastUpdate_u (collectAndDisplayNews_u h now resp su) = lastUpdate_u su"
    by (auto simp add: cycle_u_nodata_empty)
  have d: "generalContainer (collectAndDisplayNews_p h now (HttpResponse status (JsonObj data)) sp)
        = NoNews \<and>
      cryptoContainer (collectAndDisplayNews_p h now (HttpResponse status (JsonObj data)) sp)
        = NoNews \<and>
      totalNews_p (collectAndDisplayNews_p h now (HttpResponse status (JsonObj data)) sp)
        = Some 0 \<and>
      lastUpdate_p (collectAndDisplayNews_p h now (HttpResponse status (JsonObj data)) sp)
        = Some now"
    if st: "ok status" and fl: "success data = Some True"
      and c: "crypto_news data = None \<or> crypto_news data = Some []"
      and g: "general_news data = None \<or> general_news data = Some []"
  proof -
    let ?s1 = "(cycleBegin_p sp)\<lparr>cryptoNewsList := [], generalNewsList := []\<rparr>"
    have c': "(case crypto_news data of Some l \<Rightarrow> l | None \<Rightarrow> []) = []"
      using c by auto
    have g': "(case general_news data of Some l \<Rightarrow> l | None \<Rightarrow> []) = []"
      using g by auto
    have "tryBody_p h now (HttpResponse status (JsonObj data)) (cycleBegin_p sp) =
        displayAndStats_p h now ?s1"
      by (simp add: tryBody_p_data [OF fetch_p_success [OF st fl]] c' g')
    moreover have "displayAndStats_p h now ?s1 =
        (None, ?s1\<lparr>generalContainer := NoNews, cryptoContainer := NoNews,
                    totalNews_p := Some 0, lastUpdate_p := Some now\<rparr>)"
      using displayAndStats_p_ok [of h now ?s1 "[]" "[]"] by simp
    ultimately show ?thesis
      by (simp add: collectAndDisplayNews_p_def cycleFinish_p_def showLoading_p_def)
  qed
  show ?thesis
    using u_stats u_ok u_empty d cycle_p_stats [of h now resp sp] by blast
qed

theorem C6_stats_witness:
  "fetchNewsFromCollector_u (success0 (Some [entry0 ''a'' (PNum 1)]) None None) =
     Inr [entry0 ''a'' (PNum 1)] \<and>
   newsContainer (collectAndDisplayNews_u host0 5000
      (success0 (Some [entry0 ''a'' (PNum 1)]) None None) constructor_u) \<noteq> ErrorShown \<and>
   totalNews_u (collectAndDisplayNews_u host0 5000
      (success0 (Some [entry0 ''a'' (PNum 1)]) None None) constructor_u) = Some 1 \<and>
   lastUpdate_u (collectAndDisplayNews_u host0 5000
      (success0 (Some [entry0 ''a'' (PNum 1)]) None None) constructor_u) = Some 5000 \<and>
   ok 200 \<and>
   generalContainer (collectAndDisplayNews_p host0 5000 (success0 None None None) constructor_p)
     = NoNews \<and>
   generalContainer (collectAndDisplayNews_p host0 5000 (success0 None None None) constructor_p)
     \<noteq> ErrorShown \<and>
   totalNews_p (collectAndDisplayNews_p host0 5000 (success0 None None None) constructor_p)
     = Some 0 \<and>
   lastUpdate_p (collectAndDisplayNews_p host0 5000 (success0 None None None) constructor_p)
     = Some 5000"
proof -
  have fu: "fetchNewsFromCollector_u (success0 (Some [entry0 ''a'' (PNum 1)]) None None) =
      Inr [entry0 ''a'' (PNum 1)]"
    by (simp add: success0_def fetch_u_success ok_def)
  have st: "ok 200" by (simp add: ok_def)
  have items: "None \<notin> set [entry0 ''a'' (PNum 1)]" "None \<notin> set (newsList constructor_u)"
    by (simp_all add: entry0_def constructor_u_def)
  have nl: "newsList (collectAndDisplayNews_u host0 5000
      (success0 (Some [entry0 ''a'' (PNum 1)]) None None) constructor_u) = [entry0 ''a'' (PNum 1)]"
    using items by (simp add: newsList_cycle_u [OF fu] maxNewsCount_u_def)
  note inst = C6_stats [of "success0 (Some [entry0 ''a'' (PNum 1)]) None None"
        "[entry0 ''a'' (PNum 1)]" host0 5000 constructor_u constructor_p 200
        "\<lparr>success = Some True, news = None, crypto_news = None, general_news = None\<rparr>"]
  have shown_u: "newsContainer (collectAndDisplayNews_u host0 5000
      (success0 (Some [entry0 ''a'' (PNum 1)]) None None) constructor_u) \<noteq> ErrorShown"
    using fu items inst by blast
  have inst_u: "totalNews_u (collectAndDisplayNews_u host0 5000
        (success0 (Some [entry0 ''a'' (PNum 1)]) None None) constructor_u) = Some 1 \<and>
      lastUpdate_u (collectAndDisplayNews_u host0 5000
        (success0 (Some [entry0 ''a'' (PNum 1)]) None None) constructor_u) = Some 5000"
    using fu nl shown_u inst by simp
  have inst_p: "generalContainer
        (collectAndDisplayNews_p host0 5000 (success0 None None None) constructor_p) = NoNews \<and>
      totalNews_p
        (collectAndDisplayNews_p host0 5000 (success0 None None None) constructor_p) = Some 0 \<and>
      lastUpdate_p
        (collectAndDisplayNews_p host0 5000 (success0 None None None) constructor_p) = Some 5000"
    using st inst by (simp add: success0_def)
  show ?thesis
    using fu st shown_u inst_u inst_p by simp
qed

text \<open>
  The claim as first worded fails in the unified variant: on a first cycle with an empty
  store, \<open>{success: true, news: []}\<close> shows the no-news message and writes no stats,
  neither the count 0 nor the time of the cycle.
\<close>

theorem C6_counterexample:
  "newsList constructor_u = [] \<and>
   newsContainer (collectAndDisplayNews_u host0 5000 (success0 (Some []) None None)
      constructor_u) = NoNews \<and>
   totalNews_u (collectAndDisplayNews_u host0 5000 (success0 (Some []) None None)
      constructor_u) \<noteq> Some 0 \<and>
   lastUpdate_u (collectAndDisplayNews_u host0 5000 (success0 (Some []) None None)
      constructor_u) \<noteq> Some 5000"
proof -
  have f: "fetchNewsFromCollector_u (success0 (Some []) None None) = Inr []"
    by (simp add: success0_def fetch_u_success ok_def)
  have e: "newsList constructor_u = []"
    by (simp add: constructor_u_def)
  from cycle_u_nodata_empty [OF f e, of host0 5000] show ?thesis
    by (simp add: constructor_u_def)
qed

section \<open>Splitting a timestamp string\<close>

lemma split_js_notin: "c \<notin> set s \<Longrightarrow> split_js c s = [s]"
  by (induction s) auto

lemma split_js_append: "c \<notin> set a \<Longrightarrow> split_js c (a @ c # b) = a # split_js c b"
  by (induction a) auto

lemma digits_exclude: "list_all is_digit xs \<Longrightarrow> \<not> is_digit c \<Longrightarrow> c \<notin> set xs"
  by (auto simp add: list_all_iff)

lemma separators_not_digits:
  "\<not> is_digit CHR '' ''" "\<not> is_digit CHR ''-''" "\<not> is_digit CHR '':''"
  by (simp_all add: is_digit_def)

lemma getTimeAgo_p_no_space:
  assumes "CHR '' '' \<notin> set str"
  shows "getTimeAgo_p h now (PStr str) = Inl TypeError"
  by (simp add: getTimeAgo_p_def newsTime_p_def split_js_notin [OF assms] at_js_def)

lemma getTimeAgo_p_exn: "getTimeAgo_p h now p = Inl e \<Longrightarrow> e = TypeError"
  by (auto simp add: getTimeAgo_p_def newsTime_p_def Let_def
      split: sum.splits published.splits option.splits)

lemma renderItems_p_bad:
  "Some n \<in> set ns \<Longrightarrow> getTimeAgo_p h now (published n) = Inl TypeError \<Longrightarrow>
   renderItems_p h now i ns = Inl TypeError"
proof (induction ns arbitrary: i)
  case Nil
  then show ?case by simp
next
  case (Cons a ns)
  show ?case
  proof (cases a)
    case None
    then show ?thesis by simp
  next
    case (Some m)
    show ?thesis
    proof (cases "getTimeAgo_p h now (published m)")
      case (Inl e)
      with getTimeAgo_p_exn [OF Inl] Some show ?thesis by simp
    next
      case (Inr t)
      with Cons.prems Some have "Some n \<in> set ns" by auto
      from Cons.IH [OF this Cons.prems(2)] Inr Some show ?thesis by simp
    qed
  qed
qed

section \<open>Timestamps that are not well formed\<close>

text \<open>
  Claim C9. In the partitioned variant \<open>getTimeAgo\<close> throws a \<open>TypeError\<close> on every
  string without a space (a bare date, a timestamp with \<open>T\<close> between date and time):
  the split gives no time part. One such item among those rendered makes the display
  function of its list throw, and the cycle that received it ends with the error message
  in both containers instead of the lists.
\<close>

theorem C9_no_space_throws:
  assumes "CHR '' '' \<notin> set str" and "published n = PStr str"
  shows
    "getTimeAgo_p h now (PStr str) = Inl TypeError \<and>
     (Some n \<in> set (take maxNewsCount_p (generalNewsList s)) \<longrightarrow>
        displayGeneralNews h now s = (Some TypeError, s)) \<and>
     (Some n \<in> set (take maxNewsCount_p (cryptoNewsList s)) \<longrightarrow>
        displayCryptoNews h now s = (Some TypeError, s)) \<and>
     (fetchNewsFromCollector_p resp = Inr (Some data) \<and>
      (Some n \<in> set (take maxNewsCount_p (case general_news data of Some l \<Rightarrow> l | None \<Rightarrow> [])) \<or>
       Some n \<in> set (take maxNewsCount_p (case crypto_news data of Some l \<Rightarrow> l | None \<Rightarrow> []))) \<longrightarrow>
        generalContainer (collectAndDisplayNews_p h now resp s) = ErrorShown \<and>
        cryptoContainer (collectAndDisplayNews_p h now resp s) = ErrorShown)"
proof -
  have bad: "getTimeAgo_p h now (published n) = Inl TypeError"
    using assms by (simp add: getTimeAgo_p_no_space)
  have general: "displayGeneralNews h now s = (Some TypeError, s)"
    if "Some n \<in> set (take maxNewsCount_p (generalNewsList s))"
    by (rule displayGeneralNews_throws) (rule renderItems_p_bad [OF that bad])
  have crypto: "displayCryptoNews h now s = (Some TypeError, s)"
    if "Some n \<in> set (take maxNewsCount_p (cryptoNewsList s))"
    by (rule displayCryptoNews_throws) (rule renderItems_p_bad [OF that bad])
  have cycle: "generalContainer (collectAndDisplayNews_p h now resp s) = ErrorShown \<and>
        cryptoContainer (collectAndDisplayNews_p h now resp s) = ErrorShown"
    if f: "fetchNewsFromCollector_p resp = Inr (Some data)"
      and mem: "Some n \<in> set (take maxNewsCount_p (case general_news data of Some l \<Rightarrow> l | None \<Rightarrow> [])) \<or>
       Some n \<in> set (take maxNewsCount_p (case crypto_news data of Some l \<Rightarrow> l | None \<Rightarrow> []))"
  proof -
    let ?s1 = "(cycleBegin_p s)\<lparr>cryptoNewsList := (case crypto_news data of Some l \<Rightarrow> l | None \<Rightarrow> []),
          generalNewsList := (case general_news data of Some l \<Rightarrow> l | None \<Rightarrow> [])\<rparr>"
    have "renderItems_p h now 0 (take maxNewsCount_p (generalNewsList ?s1)) = Inl TypeError
      \<or> renderItems_p h now 0 (take maxNewsCount_p (cryptoNewsList ?s1)) = Inl TypeError"
      using mem renderItems_p_bad [OF _ bad] by auto
    from displayAndStats_p_throws [OF this]
    obtain e' s' where "displayAndStats_p h now ?s1 = (Some e', s')" by blast
    then have "tryBody_p h now resp (cycleBegin_p s) = (Some e', s')"
      by (simp add: tryBody_p_data [OF f])
    then show ?thesis
      by (simp add: collectAndDisplayNews_p_def cycleFinish_p_def showLoading_p_def
          showErrorMessage_p_def)
  qed
  show ?thesis
    using getTimeAgo_p_no_space [OF assms(1)] general crypto cycle by blast
qed

theorem C9_no_space_throws_witness:
  "CHR '' '' \<notin> set ''2025-10-29T00:30:57'' \<and>
   getTimeAgo_p host0 5000 (PStr ''2025-10-29T00:30:57'') = Inl TypeError \<and>
   getTimeAgo_p host0 5000 (PStr ''2025-10-29'') = Inl TypeError \<and>
   generalContainer (collectAndDisplayNews_p host0 5000
      (success0 None (Some [entry0 ''a'' (PNum 1)])
         (Some [entry0 ''b'' (PNum 1), entry0 ''c'' (PStr ''2025-10-29T00:30:57'')]))
      constructor_p) = ErrorShown \<and>
   cryptoContainer (collectAndDisplayNews_p host0 5000
      (success0 None (Some [entry0 ''a'' (PNum 1)])
         (Some [entry0 ''b'' (PNum 1), entry0 ''c'' (PStr ''2025-10-29T00:30:57'')]))
      constructor_p) = ErrorShown"
proof -
  have a: "CHR '' '' \<notin> set ''2025-10-29T00:30:57''" by simp
  have b: "CHR '' '' \<notin> set ''2025-10-29''" by simp
  have p: "published (item0 ''c'' (PStr ''2025-10-29T00:30:57'')) = PStr ''2025-10-29T00:30:57''"
    by (simp add: item0_def)
  have q: "published (item0 ''c'' (PStr ''2025-10-29'')) = PStr ''2025-10-29''"
    by (simp add: item0_def)
  have f: "fetchNewsFromCollector_p (success0 None (Some [entry0 ''a'' (PNum 1)])
         (Some [entry0 ''b'' (PNum 1), entry0 ''c'' (PStr ''2025-10-29T00:30:57'')])) =
      Inr (Some \<lparr>success = Some True, news = None, crypto_news = Some [entry0 ''a'' (PNum 1)],
        general_news =
          Some [entry0 ''b'' (PNum 1), entry0 ''c'' (PStr ''2025-10-29T00:30:57'')]\<rparr>)"
    by (simp add: success0_def fetch_p_success ok_def)
  show ?thesis
    using a
      C9_no_space_throws [OF a p, of host0 5000 constructor_p
        "success0 None (Some [entry0 ''a'' (PNum 1)])
           (Some [entry0 ''b'' (PNum 1), entry0 ''c'' (PStr ''2025-10-29T00:30:57'')])"
        "\<lparr>success = Some True, news = None, crypto_news = Some [entry0 ''a'' (PNum 1)],
          general_news =
            Some [entry0 ''b'' (PNum 1), entry0 ''c'' (PStr ''2025-10-29T00:30:57'')]\<rparr>"]
      C9_no_space_throws [OF b q, of host0 5000 constructor_p failure0
        "\<lparr>success = Some True, news = None, crypto_news = None, general_news = None\<rparr>"]
      f
    by (simp add: maxNewsCount_p_def entry0_def)
qed

section \<open>Reading a timestamp string as local time\<close>

lemma Number_js_digits:
  "s \<noteq> [] \<Longrightarrow> length s \<le> 15 \<Longrightarrow> list_all is_digit s \<Longrightarrow> Number_js h s = Some (decimal s)"
  by (simp add: Number_js_def)

lemma split_three:
  assumes "c \<notin> set a" and "c \<notin> set b" and "c \<notin> set d"
  shows "split_js c (a @ [c] @ b @ [c] @ d) = [a, b, d]"
proof -
  have "split_js c (a @ c # (b @ c # d)) = a # split_js c (b @ c # d)"
    by (rule split_js_append [OF assms(1)])
  also have "split_js c (b @ c # d) = b # split_js c d"
    by (rule split_js_append [OF assms(2)])
  also have "split_js c d = [d]"
    by (rule split_js_notin [OF assms(3)])
  finally show ?thesis by simp
qed

lemma split_date_time:
  assumes "CHR '' '' \<notin> set dp" and "CHR '' '' \<notin> set tp"
  shows "split_js CHR '' '' (dp @ '' '' @ tp) = [dp, tp]"
  using split_js_append [OF assms(1), of tp] split_js_notin [OF assms(2)] by simp

text \<open>
  Claim C7, amended. In the partitioned variant a string of the form
  \<open>YYYY-MM-DD hh:mm:ss\<close> (digits in the six places) is split at the space into its date
  and its time, each into three numbers, and the news time is the host's local-time
  constructor on year, month minus one, day, hour, minute and second as written: no
  offset is added or removed. In the unified variant a string is not split: it is handed
  whole to the host's date parser, and the news time is what that parser reads. A
  published value that is already a time value is used as it is, in both variants.
\<close>

theorem C7_local_wall_clock:
  assumes "length Y = 4" and "list_all is_digit Y"
    and "length Mo = 2" and "list_all is_digit Mo"
    and "length D = 2" and "list_all is_digit D"
    and "length H = 2" and "list_all is_digit H"
    and "length Mi = 2" and "list_all is_digit Mi"
    and "length S = 2" and "list_all is_digit S"
  shows
    "split_js CHR '' '' (Y @ ''-'' @ Mo @ ''-'' @ D @ '' '' @ H @ '':'' @ Mi @ '':'' @ S) =
       [Y @ ''-'' @ Mo @ ''-'' @ D, H @ '':'' @ Mi @ '':'' @ S] \<and>
     newsTime_p h (PStr (Y @ ''-'' @ Mo @ ''-'' @ D @ '' '' @ H @ '':'' @ Mi @ '':'' @ S)) =
       Inr (dateFromFields h (decimal Y) (decimal Mo - 1) (decimal D)
              (decimal H) (decimal Mi) (decimal S)) \<and>
     getTimeAgo_p h now (PStr (Y @ ''-'' @ Mo @ ''-'' @ D @ '' '' @ H @ '':'' @ Mi @ '':'' @ S)) =
       Inr (label_p (diffMs_of now
              (dateFromFields h (decimal Y) (decimal Mo - 1) (decimal D)
                 (decimal H) (decimal Mi) (decimal S)))) \<and>
     newsTime_u h (PStr str) = dateParse h str \<and>
     getTimeAgo_u h now (PStr str) = label_u (diffMs_of now (dateParse h str)) \<and>
     newsTime_p h (PNum t) = Inr (Some t) \<and>
     (\<bar>t\<bar> \<le> maxDateMs \<longrightarrow> newsTime_u h (PNum t) = Some t)"
proof -
  let ?dp = "Y @ ''-'' @ Mo @ ''-'' @ D"
  let ?tp = "H @ '':'' @ Mi @ '':'' @ S"
  note sep = separators_not_digits
  have no_space_dp: "CHR '' '' \<notin> set ?dp"
    using digits_exclude [OF assms(2) sep(1)] digits_exclude [OF assms(4) sep(1)]
      digits_exclude [OF assms(6) sep(1)] by simp
  have no_space_tp: "CHR '' '' \<notin> set ?tp"
    using digits_exclude [OF assms(8) sep(1)] digits_exclude [OF assms(10) sep(1)]
      digits_exclude [OF assms(12) sep(1)] by simp
  have parts: "split_js CHR '' '' (?dp @ '' '' @ ?tp) = [?dp, ?tp]"
    by (rule split_date_time [OF no_space_dp no_space_tp])
  have ymd: "split_js CHR ''-'' ?dp = [Y, Mo, D]"
    using split_three [OF digits_exclude [OF assms(2) sep(2)]
        digits_exclude [OF assms(4) sep(2)] digits_exclude [OF assms(6) sep(2)]]
    by simp
  have hms: "split_js CHR '':'' ?tp = [H, Mi, S]"
    using split_three [OF digits_exclude [OF assms(8) sep(3)]
        digits_exclude [OF assms(10) sep(3)] digits_exclude [OF assms(12) sep(3)]]
    by simp
  have nums: "Number_js h Y = Some (decimal Y)" "Number_js h Mo = Some (decimal Mo)"
    "Number_js h D = Some (decimal D)" "Number_js h H = Some (decimal H)"
    "Number_js h Mi = Some (decimal Mi)" "Number_js h S = Some (decimal S)"
    using assms by (auto intro!: Number_js_digits)
  have str: "Y @ ''-'' @ Mo @ ''-'' @ D @ '' '' @ H @ '':'' @ Mi @ '':'' @ S = ?dp @ '' '' @ ?tp"
    by simp
  have time: "newsTime_p h (PStr (?dp @ '' '' @ ?tp)) =
      Inr (dateFromFields h (decimal Y) (decimal Mo - 1) (decimal D)
             (decimal H) (decimal Mi) (decimal S))"
    using parts ymd hms nums
    by (simp add: newsTime_p_def at_js_def num_at_def Date6_def)
  show ?thesis
    unfolding str
    using parts time
    by (simp only: getTimeAgo_p_def newsTime_p_PNum)
      (simp add: newsTime_u_def getTimeAgo_u_def)
qed

theorem C7_local_wall_clock_witness:
  "list_all is_digit ''2025'' \<and> list_all is_digit ''10'' \<and> list_all is_digit ''29'' \<and>
   list_all is_digit ''00'' \<and> list_all is_digit ''30'' \<and> list_all is_digit ''57'' \<and>
   decimal ''2025'' = 2025 \<and> decimal ''10'' = 10 \<and> decimal ''57'' = 57 \<and>
   newsTime_p host0 (PStr ''2025-10-29 00:30:57'') =
     Inr (dateFromFields host0 2025 9 29 0 30 57) \<and>
   newsTime_u host0 (PStr ''2025-10-29 00:30:57'') = dateParse host0 ''2025-10-29 00:30:57'' \<and>
   newsTime_p host0 (PNum 1761665457000) = Inr (Some 1761665457000) \<and>
   newsTime_u host0 (PNum 1761665457000) = Some 1761665457000"
proof -
  have d: "list_all is_digit ''2025''" "list_all is_digit ''10''" "list_all is_digit ''29''"
    "list_all is_digit ''00''" "list_all is_digit ''30''" "list_all is_digit ''57''"
    by (simp_all add: is_digit_def)
  have v: "decimal ''2025'' = 2025" "decimal ''10'' = 10" "decimal ''29'' = 29"
    "decimal ''00'' = 0" "decimal ''30'' = 30" "decimal ''57'' = 57"
    by (simp_all add: decimal_def digit_val_def)
  have r: "\<bar>1761665457000 :: int\<bar> \<le> maxDateMs"
    by (simp add: maxDateMs_def)
  show ?thesis
    using d v r
      C7_local_wall_clock [of "''2025''" "''10''" "''29''" "''00''" "''30''" "''57''"
        host0 0 "''2025-10-29 00:30:57''" 1761665457000]
    by simp
qed

text \<open>
  The claim as first worded names no variant. It fails in the unified variant on a host
  whose date parser does not read this form, which is not the form every host must
  read: the string that the partitioned variant reads as a local time is an invalid
  date there, and the label is the day template with \<open>NaN\<close>.
\<close>

theorem C7_counterexample:
  "newsTime_p host0 (PStr ''2025-10-29 00:30:57'') =
     Inr (dateFromFields host0 2025 9 29 0 30 57) \<and>
   dateFromFields host0 2025 9 29 0 30 57 = Some 65111733057000 \<and>
   newsTime_u host0 (PStr ''2025-10-29 00:30:57'') = None \<and>
   getTimeAgo_p host0 65111733117000 (PStr ''2025-10-29 00:30:57'') = Inr (MinutesAgo 1) \<and>
   getTimeAgo_u host0 65111733117000 (PStr ''2025-10-29 00:30:57'') = DaysAgoNaN"
proof -
  have parts: "split_js CHR '' '' ''2025-10-29 00:30:57'' = [''2025-10-29'', ''00:30:57'']"
    "split_js CHR ''-'' ''2025-10-29'' = [''2025'', ''10'', ''29'']"
    "split_js CHR '':'' ''00:30:57'' = [''00'', ''30'', ''57'']"
    by simp_all
  have nums: "Number_js host0 ''2025'' = Some 2025" "Number_js host0 ''10'' = Some 10"
    "Number_js host0 ''29'' = Some 29" "Number_js host0 ''00'' = Some 0"
    "Number_js host0 ''30'' = Some 30" "Number_js host0 ''57'' = Some 57"
    by (simp_all add: Number_js_def is_digit_def decimal_def digit_val_def)
  have p: "newsTime_p host0 (PStr ''2025-10-29 00:30:57'') =
      Inr (dateFromFields host0 2025 9 29 0 30 57)"
    by (simp add: newsTime_p_def parts nums at_js_def num_at_def Date6_def)
  have v: "dateFromFields host0 2025 9 29 0 30 57 = Some 65111733057000"
    by (simp add: host0_def)
  have u: "newsTime_u host0 (PStr ''2025-10-29 00:30:57'') = None"
    by (simp add: newsTime_u_def host0_def)
  have lp: "getTimeAgo_p host0 65111733117000 (PStr ''2025-10-29 00:30:57'') =
      Inr (MinutesAgo 1)"
    using getTimeAgo_p_valid [OF p [unfolded v], of 65111733117000]
    by (simp add: doubleExact_def relativeLabel_doc_def)
  have lu: "getTimeAgo_u host0 65111733117000 (PStr ''2025-10-29 00:30:57'') = DaysAgoNaN"
    by (simp add: getTimeAgo_u_def u diffMs_of_def label_u_def)
  show ?thesis
    using p v u lp lu by simp
qed

section \<open>Cycles in the event loop\<close>






end
